theory Spec2Isabelle
  imports Main "HOL-Library.Multiset"
begin

section \<open>Source maps (packages/mini-parse/src/SrcMap.ts)\<close>

text \<open>
  Positions are JavaScript numbers holding integers; they are modelled as \<open>int\<close>.
  A thrown \<open>Error\<close> is the left summand of the result.
\<close>

record SrcMapEntry =
  src :: string
  srcStart :: int
  srcEnd :: int
  destStart :: int
  destEnd :: int

record SrcPosition =
  posSrc :: string
  position :: int

record SrcMap =
  dest :: string
  entries :: "SrcMapEntry list"

datatype error =
    NoSrcMapEntry int   \<comment> \<open>\<open>no SrcMapEntry for dest position: p\<close>\<close>
  | NeedSplit           \<comment> \<open>\<open>NYI, need to split\<close>\<close>

text \<open>\<open>destToSrc\<close>: the first entry whose closed destination range holds the position.\<close>

definition destToSrc :: "int \<Rightarrow> SrcMapEntry list \<Rightarrow> error + SrcPosition" where
  "destToSrc destPos es =
     (case find (\<lambda>e. destStart e \<le> destPos \<and> destEnd e \<ge> destPos) es of
        None \<Rightarrow> Inl (NoSrcMapEntry destPos)
      | Some entry \<Rightarrow>
          Inr \<lparr>posSrc = src entry, position = srcStart entry + destPos - destStart entry\<rparr>)"

text \<open>\<open>Array.map\<close> with a callback that may throw: the first throw ends the call.\<close>

fun mapThrowing :: "('a \<Rightarrow> error + 'b) \<Rightarrow> 'a list \<Rightarrow> error + 'b list" where
  "mapThrowing f [] = Inr []"
| "mapThrowing f (x # xs) =
     (case f x of
        Inl err \<Rightarrow> Inl err
      | Inr y \<Rightarrow> (case mapThrowing f xs of Inl err \<Rightarrow> Inl err | Inr ys \<Rightarrow> Inr (y # ys)))"

definition mapPositions :: "SrcMap \<Rightarrow> int list \<Rightarrow> error + SrcPosition list" where
  "mapPositions m positions = mapThrowing (\<lambda>p. destToSrc p (entries m)) positions"

text \<open>
  The loop of \<open>compact\<close>. \<open>prev\<close> is the last object of \<open>newEntries\<close> and is updated in
  place, so \<open>newEntries\<close> is \<open>done @ [prev]\<close> throughout.
\<close>

fun compactLoop :: "SrcMapEntry \<Rightarrow> SrcMapEntry list \<Rightarrow> SrcMapEntry list \<Rightarrow> SrcMapEntry list" where
  "compactLoop prev done [] = done @ [prev]"
| "compactLoop prev done (e # es) =
     (if src e = src prev \<and> destEnd prev = destStart e \<and> srcEnd prev = srcStart e
      then compactLoop (prev\<lparr>destEnd := destEnd e, srcEnd := srcEnd e\<rparr>) done es
      else compactLoop e (done @ [prev]) es)"

definition compactEntries :: "SrcMapEntry list \<Rightarrow> SrcMapEntry list" where
  "compactEntries es = (case es of [] \<Rightarrow> [] | e0 # rest \<Rightarrow> compactLoop e0 [] rest)"

definition compact :: "SrcMap \<Rightarrow> SrcMap" where
  "compact m = m\<lparr>entries := compactEntries (entries m)\<rparr>"

text \<open>An entry is length preserving when its two ranges are equally long and not reversed.\<close>

definition lengthPreserving :: "SrcMapEntry \<Rightarrow> bool" where
  "lengthPreserving e \<longleftrightarrow>
     destStart e \<le> destEnd e \<and> destEnd e - destStart e = srcEnd e - srcStart e"

text \<open>
  \<open>merge\<close>: the callback run on each linked entry of \<open>other\<close>. Both end points are
  looked up in this map's entries; different sources throw.
\<close>

definition reproject :: "SrcMapEntry list \<Rightarrow> SrcMapEntry \<Rightarrow> error + SrcMapEntry" where
  "reproject es e =
     (case destToSrc (srcStart e) es of
        Inl err \<Rightarrow> Inl err
      | Inr s \<Rightarrow>
          (case destToSrc (srcEnd e) es of
             Inl err \<Rightarrow> Inl err
           | Inr t \<Rightarrow>
               if posSrc t \<noteq> posSrc s then Inl NeedSplit
               else Inr \<lparr>src = posSrc s, srcStart = position s, srcEnd = position t,
                         destStart = destStart e, destEnd = destEnd e\<rparr>))"

text \<open>
  \<open>this.merge(other)\<close>. The test \<open>other === this\<close> compares object identity, which a
  record value does not carry: it is the argument \<open>same\<close>. \<open>Array.sort\<close> with a
  comparator on one numeric field is a stable sort on that key, as \<open>sort_key\<close> is.
  The result carries the lines written to the console.
\<close>

definition merge :: "bool \<Rightarrow> SrcMap \<Rightarrow> SrcMap \<Rightarrow> error + (string list \<times> SrcMap)" where
  "merge same this other =
     (if same then Inr ([], this)
      else
        let mappedEntries = filter (\<lambda>e. src e = dest this) (entries other) in
        if mappedEntries = [] then Inr ([''other source map does not link to this one''], other)
        else
          (case mapThrowing (reproject (entries this)) (sort_key srcStart mappedEntries) of
             Inl err \<Rightarrow> Inl err
           | Inr newEntries \<Rightarrow>
               let otherSources = filter (\<lambda>e. src e \<noteq> dest this) (entries other) in
               Inr ([], \<lparr>dest = dest other,
                         entries = sort_key destStart (otherSources @ newEntries)\<rparr>)))"

text \<open>Source maps used as concrete inputs below.\<close>

definition entry :: "string \<Rightarrow> int \<Rightarrow> int \<Rightarrow> int \<Rightarrow> int \<Rightarrow> SrcMapEntry" where
  "entry s a b c d = \<lparr>src = s, srcStart = a, srcEnd = b, destStart = c, destEnd = d\<rparr>"

definition replacedMap :: SrcMap where
  "replacedMap = \<lparr>dest = ''0123456789'', entries = [entry ''a'' 0 3 0 5, entry ''a'' 3 8 5 10]\<rparr>"


definition gapMap :: SrcMap where
  "gapMap = \<lparr>dest = ''aaaaabbbbb'',
             entries = [entry ''aaaaaxxxxxbbbbb'' 0 5 0 5, entry ''aaaaaxxxxxbbbbb'' 10 15 5 10]\<rparr>"

definition identityMap :: SrcMap where
  "identityMap = \<lparr>dest = ''aaaaabbbbb'', entries = [entry ''aaaaabbbbb'' 0 10 0 10]\<rparr>"





section \<open>Source lines (packages/mini-parse/src/ParserLogging.ts)\<close>





















section \<open>Parsed elements and modules (packages/linker/src/ParseModule.ts)\<close>

text \<open>
  The elements the directive parser produces, as far as \<open>parseModule\<close> tells them apart.
  An \<open>importMerge\<close> element has the fields of an \<open>import\<close> element. Elements of every
  other kind (\<open>fn\<close>, \<open>var\<close>, \<open>module\<close>, \<open>template\<close>, ...) keep their kind and span.
\<close>

record ImportElem =
  importName :: string
  importArgs :: "string list option"
  importAs :: "string option"
  importFrom :: "string option"
  importStart :: int
  importEnd :: int

record ExportElem =
  exportName :: "string option"
  exportArgs :: "string list option"
  importing :: "ImportElem list option"
  exportStart :: int
  exportEnd :: int

record StructElem =
  structName :: string
  structStart :: int
  structEnd :: int
  importMerges :: "ImportElem list option"

datatype AbstractElem =
    Import ImportElem
  | ImportMerge ImportElem
  | Export ExportElem
  | Struct StructElem
  | Other string int int

fun kind :: "AbstractElem \<Rightarrow> string" where
  "kind (Import _) = ''import''"
| "kind (ImportMerge _) = ''importMerge''"
| "kind (Export _) = ''export''"
| "kind (Struct _) = ''struct''"
| "kind (Other k _ _) = k"

text \<open>One call of \<open>srcLog\<close>: a message shown at a position of the source.\<close>

record Diagnostic =
  logPos :: int
  logMsg :: string

definition srcLog :: "int \<Rightarrow> string \<Rightarrow> Diagnostic list \<Rightarrow> Diagnostic list" where
  "srcLog pos msg log = log @ [\<lparr>logPos = pos, logMsg = msg\<rparr>]"

definition findKind :: "AbstractElem list \<Rightarrow> string \<Rightarrow> (AbstractElem \<times> nat) list" where
  "findKind parsed k = filter (\<lambda>(elem, i). kind elem = k) (zip parsed [0..<length parsed])"

definition filterElems :: "AbstractElem list \<Rightarrow> string \<Rightarrow> AbstractElem list" where
  "filterElems parsed k = filter (\<lambda>e. kind e = k) parsed"

text \<open>
  \<open>do { next = parsed[++i] } while (skip(next?.kind))\<close>, entered with the incremented
  index: the index of \<open>next\<close>, or \<open>None\<close> when \<open>next\<close> is \<open>undefined\<close>.
\<close>

function nextFrom :: "AbstractElem list \<Rightarrow> (string \<Rightarrow> bool) \<Rightarrow> nat \<Rightarrow> nat option" where
  "nextFrom parsed skip i =
     (if i \<ge> length parsed then None
      else if skip (kind (parsed ! i)) then nextFrom parsed skip (i + 1)
      else Some i)"
  by pat_completeness auto
termination
  by (relation "measure (\<lambda>(parsed, skip, i). length parsed - i)") auto

declare nextFrom.simps [simp del]

text \<open>
  The body of the \<open>forEach\<close> of \<open>matchMergeImports\<close>. The struct is an object of the
  array \<open>parsed\<close> and is updated in place, so the array is part of the state.
\<close>

definition mergeStep ::
  "AbstractElem \<times> nat \<Rightarrow> AbstractElem list \<times> Diagnostic list
     \<Rightarrow> AbstractElem list \<times> Diagnostic list" where
  "mergeStep = (\<lambda>(elem, i) (parsed, log).
     case elem of
       ImportMerge mergeElem \<Rightarrow>
         (case nextFrom parsed (\<lambda>k. k = ''importMerge'' \<or> k = ''export'') (i + 1) of
            None \<Rightarrow>
              (parsed, srcLog (importStart mergeElem) ''#extends not followed by a struct'' log)
          | Some j \<Rightarrow>
              (case parsed ! j of
                 Struct s \<Rightarrow>
                   (parsed[j := Struct (s\<lparr>importMerges :=
                       Some ((case importMerges s of None \<Rightarrow> [] | Some ms \<Rightarrow> ms)
                             @ [mergeElem])\<rparr>)],
                    log)
               | _ \<Rightarrow>
                   (parsed,
                    srcLog (importStart mergeElem) ''#extends not followed by a struct'' log)))
     | _ \<Rightarrow> (parsed, log))"

definition matchMergeImports ::
  "AbstractElem list \<times> Diagnostic list \<Rightarrow> AbstractElem list \<times> Diagnostic list" where
  "matchMergeImports = (\<lambda>(parsed, log).
     fold mergeStep (findKind parsed ''importMerge'') (parsed, log))"

text \<open>An export with the element it refers to; \<open>ref\<close> is that object's index in \<open>parsed\<close>.\<close>

record TextExport =
  exportElem :: ExportElem
  ref :: nat

definition exportStep ::
  "AbstractElem list \<Rightarrow> AbstractElem \<times> nat \<Rightarrow> TextExport list \<times> Diagnostic list
     \<Rightarrow> TextExport list \<times> Diagnostic list" where
  "exportStep parsed = (\<lambda>(elem, i) (results, log).
     case elem of
       Export e \<Rightarrow>
         (case nextFrom parsed (\<lambda>k. k = ''importMerge'') (i + 1) of
            None \<Rightarrow>
              (results, srcLog (exportStart e) ''#export what? (#export a fn or struct)'' log)
          | Some j \<Rightarrow>
              if kind (parsed ! j) = ''fn'' \<or> kind (parsed ! j) = ''struct''
              then (results @ [\<lparr>exportElem = e, ref = j\<rparr>], log)
              else (results,
                    srcLog (exportStart e) ''#export what? (#export a fn or struct)'' log))
     | _ \<Rightarrow> (results, log))"

definition findExports ::
  "AbstractElem list \<Rightarrow> Diagnostic list \<Rightarrow> TextExport list \<times> Diagnostic list" where
  "findExports parsed log = fold (exportStep parsed) (findKind parsed ''export'') ([], log)"

text \<open>
  \<open>parseModule\<close>, from the parsed element list on. The arrays \<open>fns\<close>, \<open>structs\<close>, ... hold
  the objects of \<open>parsed\<close>, so they show the updates made after they were filtered out.
  The fields \<open>name\<close>, \<open>template\<close>, \<open>src\<close>, \<open>preppedSrc\<close> and \<open>srcMap\<close> of the module do
  not depend on the steps modelled here and are left out.
\<close>

record ParsedModule =
  modExports :: "TextExport list"
  modFns :: "AbstractElem list"
  modStructs :: "AbstractElem list"
  modVars :: "AbstractElem list"
  modImports :: "AbstractElem list"

definition parseModule :: "AbstractElem list \<Rightarrow> ParsedModule \<times> Diagnostic list" where
  "parseModule parsed0 =
     (let (exps, log1) = findExports parsed0 [];
          (parsed1, log2) = matchMergeImports (parsed0, log1);
          (parsed2, log3) = matchMergeImports (parsed1, log2)
      in (\<lparr>modExports = exps,
           modFns = filterElems parsed2 ''fn'',
           modStructs = filterElems parsed2 ''struct'',
           modVars = filterElems parsed2 ''var'',
           modImports = filter (\<lambda>e. kind e = ''import'' \<or> kind e = ''importMerge'') parsed2\<rparr>,
          log3))"

text \<open>
  The elements of \<open>#importMerge Foo(a,b) as Bar from baz\<close>, alone and followed by
  \<open>struct B { x: u32 }\<close>.
\<close>

definition mergeFoo :: ImportElem where
  "mergeFoo = \<lparr>importName = ''Foo'', importArgs = Some [''a'', ''b''], importAs = Some ''Bar'',
     importFrom = Some ''baz'', importStart = 0, importEnd = 37\<rparr>"

definition structB :: StructElem where
  "structB = \<lparr>structName = ''B'', structStart = 38, structEnd = 58, importMerges = None\<rparr>"

section \<open>The lexer frame (matchingLexer)\<close>

text \<open>
  Modelled from the spec: the token matcher object (TokenMatcher.ts is not among the
  sources). Of a matcher the lexer frame uses \<open>start(src, pos)\<close>, which binds it to a
  source at a position, and \<open>position(pos?)\<close>, which gets or sets its cursor.
\<close>

record TokenMatcher =
  bound :: string
  cursor :: nat

definition matcherStart :: "string \<Rightarrow> nat \<Rightarrow> TokenMatcher \<Rightarrow> TokenMatcher" where
  "matcherStart s pos m = m\<lparr>bound := s, cursor := pos\<rparr>"

definition matcherSetPosition :: "nat \<Rightarrow> TokenMatcher \<Rightarrow> TokenMatcher" where
  "matcherSetPosition pos m = m\<lparr>cursor := pos\<rparr>"

text \<open>
  The state closed over by \<open>matchingLexer\<close>. Matchers are objects that several
  variables and stack frames may share, so the state has a heap of matcher objects and
  refers to a matcher by its address. The stack's top is the head of the list. Lines
  written by \<open>console.error\<close> are kept in \<open>console\<close>.
\<close>

record Lexer =
  lexSrc :: string
  matcher :: nat
  ignore :: "string set"
  matcherStack :: "(nat \<times> string set) list"
  heap :: "nat \<Rightarrow> TokenMatcher"
  console :: "string list"

text \<open>A call that may throw returns its outcome and the state it leaves behind.\<close>

datatype 'a outcome = Returned 'a | Thrown string

definition matchingLexer :: "string \<Rightarrow> nat \<Rightarrow> string set \<Rightarrow> (nat \<Rightarrow> TokenMatcher) \<Rightarrow> Lexer" where
  "matchingLexer s rootMatcher ig h =
     \<lparr>lexSrc = s, matcher = rootMatcher, ignore = ig, matcherStack = [],
      heap = h(rootMatcher := matcherStart s 0 (h rootMatcher)), console = []\<rparr>"

definition pushMatcher :: "nat \<Rightarrow> string set \<Rightarrow> Lexer \<Rightarrow> Lexer" where
  "pushMatcher newMatcher newIgnore lx =
     (let pos = cursor (heap lx (matcher lx)) in
      lx\<lparr>matcherStack := (matcher lx, ignore lx) # matcherStack lx,
         heap := (heap lx)(newMatcher := matcherStart (lexSrc lx) pos (heap lx newMatcher)),
         matcher := newMatcher,
         ignore := newIgnore\<rparr>)"

definition popMatcher :: "Lexer \<Rightarrow> Lexer" where
  "popMatcher lx =
     (let pos = cursor (heap lx (matcher lx)) in
      case matcherStack lx of
        [] \<Rightarrow> lx\<lparr>console := console lx @ [''too many pops'']\<rparr>
      | (m, ig) # rest \<Rightarrow>
          lx\<lparr>matcherStack := rest, matcher := m, ignore := ig,
             heap := (heap lx)(m := matcherSetPosition pos (heap lx m))\<rparr>)"

definition lexPosition :: "nat option \<Rightarrow> Lexer \<Rightarrow> nat \<times> Lexer" where
  "lexPosition pos lx =
     (let lx' = (case pos of
                   None \<Rightarrow> lx
                 | Some p \<Rightarrow> lx\<lparr>heap := (heap lx)(matcher lx :=
                               matcherStart (lexSrc lx) p (heap lx (matcher lx)))\<rparr>)
      in (cursor (heap lx' (matcher lx')), lx'))"

definition eof :: "Lexer \<Rightarrow> bool" where
  "eof lx \<longleftrightarrow> cursor (heap lx (matcher lx)) = length (lexSrc lx)"

text \<open>
  \<open>withMatcherIgnore\<close> has no \<open>try\<close>: when \<open>fn\<close> throws, \<open>popMatcher\<close> is not reached.
\<close>

definition withMatcherIgnore ::
  "nat \<Rightarrow> string set \<Rightarrow> (Lexer \<Rightarrow> 'a outcome \<times> Lexer) \<Rightarrow> Lexer \<Rightarrow> 'a outcome \<times> Lexer" where
  "withMatcherIgnore tokenMatcher ig fn lx =
     (case fn (pushMatcher tokenMatcher ig lx) of
        (Thrown e, lx2) \<Rightarrow> (Thrown e, lx2)
      | (Returned result, lx2) \<Rightarrow> (Returned result, popMatcher lx2))"

definition withMatcher ::
  "nat \<Rightarrow> (Lexer \<Rightarrow> 'a outcome \<times> Lexer) \<Rightarrow> Lexer \<Rightarrow> 'a outcome \<times> Lexer" where
  "withMatcher newMatcher fn lx = withMatcherIgnore newMatcher (ignore lx) fn lx"

definition withIgnore ::
  "string set \<Rightarrow> (Lexer \<Rightarrow> 'a outcome \<times> Lexer) \<Rightarrow> Lexer \<Rightarrow> 'a outcome \<times> Lexer" where
  "withIgnore newIgnore fn lx = withMatcherIgnore (matcher lx) newIgnore fn lx"

text \<open>
  A function using the lexer is balanced when, whenever it returns, it has left the
  active matcher, the ignore set and the matcher stack as it found them.
\<close>

definition balanced :: "(Lexer \<Rightarrow> 'a outcome \<times> Lexer) \<Rightarrow> bool" where
  "balanced fn \<longleftrightarrow>
     (\<forall>lx r lx'. fn lx = (Returned r, lx') \<longrightarrow>
        matcher lx' = matcher lx \<and> ignore lx' = ignore lx
        \<and> matcherStack lx' = matcherStack lx)"

text \<open>Clients used as concrete inputs: one that seeks to position 3, one that throws.\<close>

definition lexer0 :: Lexer where
  "lexer0 = matchingLexer ''fn foo()'' 0 {''ws''} (\<lambda>_. \<lparr>bound = [], cursor = 0\<rparr>)"

definition seekThree :: "Lexer \<Rightarrow> nat outcome \<times> Lexer" where
  "seekThree lx = (case lexPosition (Some 3) lx of (p, lx') \<Rightarrow> (Returned p, lx'))"

definition throwing :: "Lexer \<Rightarrow> nat outcome \<times> Lexer" where
  "throwing lx = (Thrown ''boom'', lx)"

section \<open>Reference traversal (packages/linker/src/TraverseRefs.ts)\<close>

text \<open>
  The elements traversal reads. A \<open>call\<close> or \<open>typeRef\<close> child carries its kind, name and
  span; its mutable \<open>ref\<close> field is not part of the value: each assignment to it is
  recorded. A referenced element (\<open>fn\<close>, \<open>struct\<close>, \<open>var\<close>, \<open>alias\<close>, \<open>member\<close>) carries its
  kind as a string, as in the source, and the fields the traversal reads.
\<close>

record ChildElem =
  childKind :: string
  childName :: string
  childStart :: int
  childEnd :: int

record MemberElem =
  memberName :: string
  memberTypeRefs :: "ChildElem list"

record TargetElem =
  elemKind :: string
  elemName :: string
  calls :: "ChildElem list"
  typeRefs :: "ChildElem list"
  members :: "MemberElem list option"
  elemStart :: int
  elemEnd :: int

record TreeImportElem =
  treeStart :: int
  treeEnd :: int

record TextModule =
  modName :: string
  fileName :: "string option"
  fns :: "TargetElem list"
  structs :: "TargetElem list"
  vars :: "TargetElem list"
  aliases :: "TargetElem list"
  treeImports :: "TreeImportElem list"

record GeneratorModule =
  genModName :: string

text \<open>
  A module export as \<open>importRef\<close> reads it: for a text module the element the export
  refers to (\<open>exp.ref\<close>), for a generator module the export's name.
\<close>

datatype ModuleExport =
    TextModuleExport TextModule TargetElem
  | GeneratorModuleExport GeneratorModule string

record Resolved =
  modExp :: ModuleExport
  callSegments :: "string list"
  resolvedArgs :: "(string \<times> string) list"

text \<open>
  Modelled from the spec: \<open>registry.importResolveMap\<close> and \<open>resolveImport\<close> are not among
  the sources. The registry is what the two together compute: for an importing module
  and a name, the resolved export of the import whose leaf or alias is that name, or
  nothing.
\<close>

type_synonym ParsedRegistry = "TextModule \<Rightarrow> string \<Rightarrow> Resolved option"

text \<open>
  \<open>FoundRef = TextRef | GeneratorRef\<close>. The optional \<open>rename\<close>, which a later pass fills in,
  is left out. \<open>proposedName\<close> is \<open>undefined\<close> when \<open>callSegments\<close> is empty.
\<close>

datatype TextRef =
    TextRef (expMod: TextModule) (elem: TargetElem) (proposedName: "string option")
      (expInfo: "ExportInfo option")
and GeneratorRef =
    GeneratorRef (genMod: GeneratorModule) (genName: string) (genProposedName: "string option")
      (genInfo: ExportInfo)
and FoundRef =
    Txt TextRef
  | Gen GeneratorRef
and ExportInfo =
    ExportInfo (fromRef: TextRef) (fromImport: "TreeImportElem option")
      (expImpArgs: "(string \<times> string) list")

definition stdFns :: "string list" where
  "stdFns =
    [
     ''bitcast'', ''all'', ''any'', ''select'', ''arrayLength'', ''abs'', ''acos'',
     ''acosh'', ''asin'', ''asinh'', ''atan'', ''atanh'', ''atan2'', ''ceil'', ''clamp'',
     ''cos'', ''cosh'', ''countLeadingZeros'', ''countOneBits'', ''countTrailingZeros'',
     ''cross'', ''degrees'', ''determinant'', ''distance'', ''dot'', ''dot4UI8Packed'',
     ''dot4I8Packed'', ''exp'', ''exp2'', ''extractBits'', ''faceForward'',
     ''firstLeadingBit'', ''firstTrailingBit'', ''floor'', ''fma'', ''fract'', ''frexp'',
     ''inserBits'', ''inverseSqrt'', ''ldexp'', ''length'', ''log'', ''log2'', ''max'',
     ''min'', ''mix'', ''modf'', ''normalize'', ''pow'', ''quantizeToF16'', ''radians'',
     ''reflect'', ''refract'', ''reverseBits'', ''round'', ''saturate'', ''sign'', ''sin'',
     ''sinh'', ''smoothstep'', ''sqrt'', ''step'', ''tan'', ''tanh'', ''transpose'',
     ''trunc'', ''dpdx'', ''dpdxCoarse'', ''dpdxFine'', ''dpdy'', ''dpdyCoarse'',
     ''dpdyFine'', ''fwidth'', ''fwdithCoarse'', ''fwidthFine'', ''textureDimensions'',
     ''textureGather'', ''textureGatherCompare'', ''textureLoad'', ''textureNumLayers'',
     ''textureNumLevels'', ''textureNumSamples'', ''textureSample'', ''textureSampleBias'',
     ''textureSampleCompare'', ''textureSampleCompareLevel'', ''textureSampleGrad'',
     ''textureSampleLevel'', ''textureSampleBaseClampToEdge'', ''textureStore'',
     ''atomicLoad'', ''atomicStore'', ''atomicAdd'', ''atomicSub'', ''atomicMax'',
     ''atomicMin'', ''atomicOr'', ''atomicXor'', ''atomicExchange'',
     ''atomicCompareExchangeWeak'', ''pack4x8snorm'', ''pack4x8unorm'', ''pack4xI8'',
     ''pack4xU8'', ''pack4xI8Clamp'', ''pack4xU8Clamp'', ''pack2x16snorm'',
     ''pack2x16unorm'', ''pack2x16float'', ''unpack4x8snorm'', ''unpack4x8unorm'',
     ''unpack4xI8'', ''unpack4xU8'', ''unpack2x16snorm'', ''unpack2x16unorm'',
     ''unpack2x16float'', ''storageBarrier'', ''textureBarrier'', ''workgroupBarrier'',
     ''workgroupUniformLoad'', '''']"

definition stdTypes :: "string list" where
  "stdTypes =
    [
     ''array'', ''atomic'', ''bool'', ''f16'', ''f32'', ''i32'', ''mat2x2'', ''mat2x3'',
     ''mat2x4'', ''mat3x2'', ''mat3x3'', ''mat3x4'', ''mat4x2'', ''mat4x3'', ''mat4x4'',
     ''mat2x2f'', ''mat2x3f'', ''mat2x4f'', ''mat3x2f'', ''mat3x3f'', ''mat3x4f'',
     ''mat4x2f'', ''mat4x3f'', ''mat4x4f'', ''mat2x2h'', ''mat2x3h'', ''mat2x4h'',
     ''mat3x2h'', ''mat3x3h'', ''mat3x4h'', ''mat4x2h'', ''mat4x3h'', ''mat4x4h'', ''u32'',
     ''vec2'', ''vec3'', ''vec4'', ''ptr'', ''vec2i'', ''vec3i'', ''vec4i'', ''vec2u'',
     ''vec3u'', ''vec4u'', ''vec2f'', ''vec3f'', ''vec4f'', ''vec2h'', ''vec3h'',
     ''vec4h'', ''texture_1d'', ''texture_2d'', ''texture_2d_array'', ''texture_3d'',
     ''texture_cube'', ''texture_cube_array'', ''texture_multisampled_2d'',
     ''texture_depth_multisampled_2d'', ''texture_external'', ''texture_storage_1d'',
     ''texture_storage_2d'', ''texture_storage_2d_array'', ''texture_storage_3d'',
     ''texture_depth_2d'', ''texture_depth_2d_array'', ''texture_depth_cube'',
     ''texture_depth_cube_array'', ''sampler'', ''sampler_comparison'', ''rgba8unorm'',
     ''rgba8snorm'', ''rgba8uint'', ''rgba8sint'', ''rgba16uint'', ''rgba16sint'',
     ''rgba16float'', ''r32uint'', ''r32sint'', ''r32float'', ''rg32uint'', ''rg32sint'',
     ''rg32float'', ''rgba32uint'', ''rgba32sint'', ''rgba32float'', ''bgra8unorm'',
     ''function'', '''']"

definition stdType :: "string \<Rightarrow> bool" where
  "stdType name \<longleftrightarrow> name \<in> set stdTypes"

definition stdFn :: "string \<Rightarrow> bool" where
  "stdFn name \<longleftrightarrow> name \<in> set stdFns \<or> stdType name"

definition refName :: "FoundRef \<Rightarrow> string" where
  "refName r = (case r of Gen g \<Rightarrow> genName g | Txt t \<Rightarrow> elemName (elem t))"

text \<open>\<open>textRefs\<close>: the refs whose kind is not \<open>gen\<close>.\<close>

fun textRefs :: "FoundRef list \<Rightarrow> TextRef list" where
  "textRefs [] = []"
| "textRefs (Txt t # rs) = t # textRefs rs"
| "textRefs (Gen g # rs) = textRefs rs"

text \<open>The log sink writes the arguments of one call with a blank between them.\<close>

definition joinBlank :: "string list \<Rightarrow> string" where
  "joinBlank xs = (case xs of [] \<Rightarrow> [] | x # rest \<Rightarrow> foldl (\<lambda>acc y. acc @ '' '' @ y) x rest)"

text \<open>
  \<open>moduleLog\<close>: a diagnostic at a position of the module's source. The messages and the
  module suffix, which itself starts with a blank, are separate arguments of the log call.
\<close>

definition moduleLog :: "TextModule \<Rightarrow> int \<Rightarrow> string list \<Rightarrow> Diagnostic" where
  "moduleLog m pos msgs =
     \<lparr>logPos = pos,
      logMsg = joinBlank (msgs @ ['' module: '' @ modName m @ '' ''
                 @ (case fileName m of None \<Rightarrow> [] | Some f \<Rightarrow> f)])\<rparr>"

text \<open>
  What looking up children yields: the refs returned, the assignments made to \<open>ref\<close>
  fields, the diagnostics logged and the lines written by \<open>console.error\<close>, each in order.
\<close>

record Linked =
  found :: "FoundRef list"
  assigned :: "(ChildElem \<times> FoundRef) list"
  logged :: "Diagnostic list"
  consoleErrors :: "string list"

definition noLinked :: Linked where
  "noLinked = \<lparr>found = [], assigned = [], logged = [], consoleErrors = []\<rparr>"

definition andThen :: "Linked \<Rightarrow> Linked \<Rightarrow> Linked" where
  "andThen a b =
     \<lparr>found = found a @ found b, assigned = assigned a @ assigned b,
      logged = logged a @ logged b, consoleErrors = consoleErrors a @ consoleErrors b\<rparr>"

text \<open>\<open>a ?? b\<close>\<close>

definition orElse :: "'a option \<Rightarrow> 'a option \<Rightarrow> 'a option" where
  "orElse a b = (case a of None \<Rightarrow> b | Some x \<Rightarrow> Some x)"

text \<open>\<open>importArgRef\<close> returns a boolean, or \<open>undefined\<close> when the ref has no \<open>expInfo\<close>.\<close>

definition importArgRef :: "TextRef \<Rightarrow> string \<Rightarrow> bool option" where
  "importArgRef srcRef name =
     (case expInfo srcRef of
        None \<Rightarrow> None
      | Some info \<Rightarrow> Some (find (\<lambda>(expArg, impArg). expArg = name) (expImpArgs info) \<noteq> None))"

text \<open>\<open>last(callSegments)\<close>, \<open>undefined\<close> for the empty array.\<close>

definition lastSegment :: "string list \<Rightarrow> string option" where
  "lastSegment segs = (if segs = [] then None else Some (last segs))"

definition importRef ::
  "ParsedRegistry \<Rightarrow> TextRef \<Rightarrow> string \<Rightarrow> TextModule \<Rightarrow> TreeImportElem list
     \<Rightarrow> FoundRef option" where
  "importRef registry fromR name impMod imps =
     (let resolved = registry impMod name;
          fromImp = (case imps of [] \<Rightarrow> None | i # _ \<Rightarrow> Some i)
      in case resolved of
           None \<Rightarrow> None
         | Some r \<Rightarrow>
             (let proposed = lastSegment (callSegments r);
                  info = ExportInfo fromR fromImp (resolvedArgs r)
              in case modExp r of
                   TextModuleExport m e \<Rightarrow> Some (Txt (TextRef m e proposed (Some info)))
                 | GeneratorModuleExport g n \<Rightarrow> Some (Gen (GeneratorRef g n proposed info))))"

definition localRef :: "string \<Rightarrow> TextModule \<Rightarrow> FoundRef option" where
  "localRef name m =
     (case orElse (find (\<lambda>f. elemName f = name) (fns m))
             (orElse (find (\<lambda>s. elemName s = name) (structs m))
                     (find (\<lambda>s. elemName s = name) (aliases m))) of
        None \<Rightarrow> None
      | Some e \<Rightarrow> Some (Txt (TextRef m e (Some (elemName e)) None)))"

definition linkedRef :: "ParsedRegistry \<Rightarrow> ChildElem \<Rightarrow> TextRef \<Rightarrow> TextModule \<Rightarrow> Linked" where
  "linkedRef registry child srcRef m =
     (let name = childName child in
      if importArgRef srcRef name = Some True then noLinked
      else
        case orElse (importRef registry srcRef name m (treeImports m)) (localRef name m) of
          Some foundRef \<Rightarrow>
            if childKind child \<in> {''typeRef'', ''call''}
            then noLinked\<lparr>found := [foundRef], assigned := [(child, foundRef)]\<rparr>
            else noLinked\<lparr>found := [foundRef], consoleErrors := [''unexpected kind'']\<rparr>
        | None \<Rightarrow>
            noLinked\<lparr>logged :=
              [moduleLog (expMod srcRef) (childStart child) [''reference not found: '' @ name]]\<rparr>)"

text \<open>\<open>children.flatMap(elem => linkedRef(elem, srcRef, mod, registry))\<close>\<close>

definition elemChildrenRefs ::
  "ParsedRegistry \<Rightarrow> TextRef \<Rightarrow> ChildElem list \<Rightarrow> TextModule \<Rightarrow> Linked" where
  "elemChildrenRefs registry srcRef children m =
     foldr (\<lambda>child rest. andThen (linkedRef registry child srcRef m) rest) children noLinked"

text \<open>\<open>elemTypeRefs\<close>, with the line it writes for an element of some other kind.\<close>

definition elemTypeRefs :: "TargetElem \<Rightarrow> ChildElem list \<times> string list" where
  "elemTypeRefs e =
     (let k = elemKind e;
          (trs, errs) =
            (if k = ''fn'' \<or> k = ''var'' \<or> k = ''alias'' \<or> k = ''member'' then (typeRefs e, [])
             else if k = ''struct'' then
               (case members e of None \<Rightarrow> [] | Some ms \<Rightarrow> concat (map memberTypeRefs ms), [])
             else ([], [''unexpected kind'']))
      in (filter (\<lambda>r. \<not> stdType (childName r)) trs, errs))"

definition elemRefs :: "ParsedRegistry \<Rightarrow> TextRef \<Rightarrow> TextModule \<Rightarrow> Linked" where
  "elemRefs registry srcRef m =
     (let e = elem srcRef;
          fnRefs =
            (if elemKind e = ''fn'' then
               elemChildrenRefs registry srcRef
                 (filter (\<lambda>c. \<not> stdFn (childName c) \<and> childName c \<noteq> elemName e) (calls e)) m
             else noLinked);
          (userTypeRefs, errs) = elemTypeRefs e;
          tRefs = elemChildrenRefs registry srcRef userTypeRefs m
      in andThen fnRefs (andThen (noLinked\<lparr>consoleErrors := errs\<rparr>) tRefs))"

text \<open>\<open>refs.flatMap(r => elemRefs(r, mod, registry))\<close>\<close>

definition elemRefsAll :: "ParsedRegistry \<Rightarrow> TextModule \<Rightarrow> TextRef list \<Rightarrow> Linked" where
  "elemRefsAll registry m refs =
     foldr (\<lambda>r rest. andThen (elemRefs registry r m) rest) refs noLinked"

text \<open>
  Modelled from the spec: \<open>groupBy\<close> of Util.ts is not among the sources. It collects the
  elements with equal keys in a \<open>Map\<close>, which keeps its keys in the order they were
  first inserted and each group in the order of the list. Modules are compared as
  values.
\<close>

fun groupBy :: "('a \<Rightarrow> 'k) \<Rightarrow> 'a list \<Rightarrow> ('k \<times> 'a list) list" where
  "groupBy f [] = []"
| "groupBy f (x # xs) =
     (f x, x # filter (\<lambda>y. f y = f x) xs) # groupBy f (filter (\<lambda>y. f y \<noteq> f x) xs)"

text \<open>
  The state of one traversal: the set \<open>seen\<close>, and what the traversal does to the world,
  in order: the refs handed to the callback, the refs whose children \<open>recursiveRefs\<close>
  looked up, and the assignments, diagnostics and console lines of the lookups.
\<close>

record Traversal =
  seen :: "string set"
  delivered :: "FoundRef list"
  recursedInto :: "TextRef list"
  assignments :: "(ChildElem \<times> FoundRef) list"
  diagnostics :: "Diagnostic list"
  errorLines :: "string list"

definition startTraversal :: Traversal where
  "startTraversal = \<lparr>seen = {}, delivered = [], recursedInto = [], assignments = [],
     diagnostics = [], errorLines = []\<rparr>"

definition noteLinked :: "Linked \<Rightarrow> Traversal \<Rightarrow> Traversal" where
  "noteLinked l st = st\<lparr>assignments := assignments st @ assigned l,
     diagnostics := diagnostics st @ logged l, errorLines := errorLines st @ consoleErrors l\<rparr>"

text \<open>
  \<open>eachRef\<close>: the callback is called first, on every ref; the result says whether the
  ref's full name was unseen. \<open>refFullName\<close> (Linker.ts) is not among the sources and is
  a parameter.
\<close>

definition eachRef :: "(FoundRef \<Rightarrow> string) \<Rightarrow> FoundRef \<Rightarrow> Traversal \<Rightarrow> bool \<times> Traversal" where
  "eachRef refFullName r st =
     (let st1 = st\<lparr>delivered := delivered st @ [r]\<rparr>;
          fullName = refFullName r
      in if fullName \<notin> seen st1 then (True, st1\<lparr>seen := insert fullName (seen st1)\<rparr>)
         else (False, st1))"

text \<open>\<open>refs.filter(r => fn(r))\<close>\<close>

fun filterEach ::
  "(FoundRef \<Rightarrow> string) \<Rightarrow> FoundRef list \<Rightarrow> Traversal \<Rightarrow> FoundRef list \<times> Traversal" where
  "filterEach refFullName [] st = ([], st)"
| "filterEach refFullName (r # rs) st =
     (case eachRef refFullName r st of
        (keep, st1) \<Rightarrow>
          (case filterEach refFullName rs st1 of
             (kept, st2) \<Rightarrow> (if keep then r # kept else kept, st2)))"

text \<open>
  The \<open>forEach\<close> over the module groups, given the function to call on each group's
  children. \<open>None\<close> is a call that did not return.
\<close>

fun forGroups ::
  "(FoundRef list \<Rightarrow> Traversal \<Rightarrow> Traversal option) \<Rightarrow> ParsedRegistry
     \<Rightarrow> (TextModule \<times> TextRef list) list \<Rightarrow> Traversal \<Rightarrow> Traversal option" where
  "forGroups recurse registry [] st = Some st"
| "forGroups recurse registry ((m, refs) # groups) st =
     (if refs \<noteq> [] then
        (let childRefs = elemRefsAll registry m refs;
             st1 = noteLinked childRefs (st\<lparr>recursedInto := recursedInto st @ refs\<rparr>)
         in case recurse (found childRefs) st1 of
              None \<Rightarrow> None
            | Some st2 \<Rightarrow> forGroups recurse registry groups st2)
      else forGroups recurse registry groups st)"

text \<open>
  \<open>recursiveRefs\<close>, with the depth of recursion bounded by the first argument: \<open>None\<close>
  when the bound is reached.
\<close>

fun recursiveRefs ::
  "nat \<Rightarrow> (FoundRef \<Rightarrow> string) \<Rightarrow> ParsedRegistry \<Rightarrow> FoundRef list \<Rightarrow> Traversal
     \<Rightarrow> Traversal option" where
  "recursiveRefs 0 refFullName registry refs st = None"
| "recursiveRefs (Suc n) refFullName registry refs st =
     (case filterEach refFullName refs st of
        (filtered, st1) \<Rightarrow>
          forGroups (recursiveRefs n refFullName registry) registry
            (groupBy expMod (textRefs filtered)) st1)"

definition srcRefs :: "TextModule \<Rightarrow> TextRef list" where
  "srcRefs srcModule =
     map (\<lambda>e. TextRef srcModule e (Some (elemName e)) None)
       (structs srcModule @ vars srcModule @ fns srcModule @ aliases srcModule)"

definition traverseRefs ::
  "nat \<Rightarrow> (FoundRef \<Rightarrow> string) \<Rightarrow> ParsedRegistry \<Rightarrow> TextModule \<Rightarrow> Traversal option" where
  "traverseRefs n refFullName registry srcModule =
     (let roots = srcRefs srcModule;
          st0 = startTraversal\<lparr>delivered := map Txt roots\<rparr>
      in if roots = [] then Some st0
         else
           (let childRefs = elemRefsAll registry srcModule roots
            in recursiveRefs n refFullName registry (found childRefs) (noteLinked childRefs st0)))"

text \<open>
  Modelled from the spec: an instance of \<open>refFullName\<close>, the exporting module's name, the
  element's name and a serialization of the import arguments when there are any.
\<close>

definition argsSuffix :: "(string \<times> string) list \<Rightarrow> string" where
  "argsSuffix args =
     (if args = [] then [] else ''?'' @ concat (map (\<lambda>(e, i). e @ ''='' @ i @ '';'') args))"

definition fullNameOf :: "FoundRef \<Rightarrow> string" where
  "fullNameOf r =
     (case r of
        Txt t \<Rightarrow> modName (expMod t) @ ''.'' @ elemName (elem t)
                 @ (case expInfo t of None \<Rightarrow> [] | Some i \<Rightarrow> argsSuffix (expImpArgs i))
      | Gen g \<Rightarrow> genModName (genMod g) @ ''.'' @ genName g @ argsSuffix (expImpArgs (genInfo g)))"

text \<open>
  Small modules used as concrete inputs: \<open>main\<close> calling \<open>a1\<close>, \<open>b1\<close>, \<open>a2\<close>, imported from
  modules A, B, A; and \<open>main\<close> calling its own \<open>helper\<close>.
\<close>

definition callTo :: "string \<Rightarrow> int \<Rightarrow> ChildElem" where
  "callTo n p = \<lparr>childKind = ''call'', childName = n, childStart = p, childEnd = p + int (length n)\<rparr>"

definition fnElem :: "string \<Rightarrow> ChildElem list \<Rightarrow> TargetElem" where
  "fnElem n cs = \<lparr>elemKind = ''fn'', elemName = n, calls = cs, typeRefs = [], members = None,
     elemStart = 0, elemEnd = 0\<rparr>"

definition moduleOf :: "string \<Rightarrow> TargetElem list \<Rightarrow> TextModule" where
  "moduleOf n fs = \<lparr>modName = n, fileName = None, fns = fs, structs = [], vars = [],
     aliases = [], treeImports = []\<rparr>"

definition modA :: TextModule where
  "modA = moduleOf ''A'' [fnElem ''a1'' [], fnElem ''a2'' []]"

definition modB :: TextModule where
  "modB = moduleOf ''B'' [fnElem ''b1'' []]"

definition mainAB :: TextModule where
  "mainAB = moduleOf ''main''
     [fnElem ''main'' [callTo ''a1'' 10, callTo ''b1'' 20, callTo ''a2'' 30]]"

definition exported :: "TextModule \<Rightarrow> string \<Rightarrow> Resolved option" where
  "exported m n =
     map_option (\<lambda>e. \<lparr>modExp = TextModuleExport m e, callSegments = [modName m, n],
                       resolvedArgs = []\<rparr>)
       (find (\<lambda>e. elemName e = n) (fns m))"

definition registryAB :: ParsedRegistry where
  "registryAB m n =
     (if m = mainAB then
        (if n = ''a1'' \<or> n = ''a2'' then exported modA n
         else if n = ''b1'' then exported modB n else None)
      else None)"

definition mainLocal :: TextModule where
  "mainLocal = moduleOf ''main'' [fnElem ''main'' [callTo ''helper'' 10], fnElem ''helper'' []]"

definition noImports :: ParsedRegistry where
  "noImports m n = None"

text \<open>
  The ref \<open>importRef\<close> builds from a resolved export, and the test \<open>importArgRef\<close> makes:
  the name is an export parameter recorded on the ref's own import.
\<close>

definition importedRef :: "TextRef \<Rightarrow> TextModule \<Rightarrow> Resolved \<Rightarrow> FoundRef" where
  "importedRef srcRef m r =
     (let info = ExportInfo srcRef (case treeImports m of [] \<Rightarrow> None | i # _ \<Rightarrow> Some i)
                   (resolvedArgs r)
      in case modExp r of
           TextModuleExport em e \<Rightarrow> Txt (TextRef em e (lastSegment (callSegments r)) (Some info))
         | GeneratorModuleExport g n \<Rightarrow> Gen (GeneratorRef g n (lastSegment (callSegments r)) info))"

definition isImportArg :: "TextRef \<Rightarrow> string \<Rightarrow> bool" where
  "isImportArg srcRef n \<longleftrightarrow>
     (case expInfo srcRef of None \<Rightarrow> False | Some info \<Rightarrow> n \<in> fst ` set (expImpArgs info))"

text \<open>Refs and children used as concrete inputs.\<close>

definition mainRef :: "TextModule \<Rightarrow> TextRef" where
  "mainRef m = TextRef m (hd (fns m)) (Some ''main'') None"

definition typeRefTo :: "string \<Rightarrow> int \<Rightarrow> ChildElem" where
  "typeRefTo n p =
     \<lparr>childKind = ''typeRef'', childName = n, childStart = p, childEnd = p + int (length n)\<rparr>"

text \<open>
  The refs a traversal from a root module can reach: the root's declarations, and the
  refs found inside a reachable text ref. A module graph is finite when these have
  finitely many full names.
\<close>

inductive_set reachableRefs :: "ParsedRegistry \<Rightarrow> TextModule \<Rightarrow> FoundRef set"
  for registry :: ParsedRegistry and srcModule :: TextModule where
    root: "t \<in> set (srcRefs srcModule) \<Longrightarrow> Txt t \<in> reachableRefs registry srcModule"
  | child: "Txt t \<in> reachableRefs registry srcModule
        \<Longrightarrow> c \<in> set (found (elemRefs registry t (expMod t)))
        \<Longrightarrow> c \<in> reachableRefs registry srcModule"

text \<open>What a traversal step guarantees about the refs it recursed into.\<close>

definition grows :: "(TextRef \<Rightarrow> string) \<Rightarrow> string set \<Rightarrow> Traversal \<Rightarrow> Traversal \<Rightarrow> bool" where
  "grows keyT old st st' \<longleftrightarrow>
     seen st \<subseteq> seen st'
     \<and> (\<exists>new. recursedInto st' = recursedInto st @ new \<and> distinct (map keyT new)
            \<and> keyT ` set new \<subseteq> seen st' \<and> keyT ` set new \<inter> old = {})"

text \<open>A module whose two functions call each other.\<close>

definition mutualMod :: TextModule where
  "mutualMod = moduleOf ''main''
     [fnElem ''f'' [callTo ''g'' 10], fnElem ''g'' [callTo ''f'' 30]]"

text \<open>
  The children of an element that \<open>elemRefs\<close> looks up: the calls of a \<open>fn\<close> that name
  neither a builtin function nor the \<open>fn\<close> itself, then the type references (of a
  \<open>struct\<close>, those of its members) that name no builtin type. A builtin type name counts
  as a builtin function name.
\<close>

definition lookedUp :: "TargetElem \<Rightarrow> ChildElem list" where
  "lookedUp e =
     (if elemKind e = ''fn''
      then filter (\<lambda>c. \<not> stdFn (childName c) \<and> childName c \<noteq> elemName e) (calls e)
      else [])
     @ filter (\<lambda>r. \<not> stdType (childName r))
         (if elemKind e \<in> {''fn'', ''var'', ''alias'', ''member''} then typeRefs e
          else if elemKind e = ''struct''
          then (case members e of None \<Rightarrow> [] | Some ms \<Rightarrow> concat (map memberTypeRefs ms))
          else [])"

text \<open>
  The lookup of one child in the four steps of the specification: an export parameter of
  the ref's import yields nothing; otherwise the import resolution of the module decides;
  otherwise the first declaration of that name among the module's \<open>fns\<close>, \<open>structs\<close> and
  \<open>aliases\<close>; otherwise a "reference not found" diagnostic at the child's start.
\<close>

definition lookupChild :: "ParsedRegistry \<Rightarrow> TextRef \<Rightarrow> TextModule \<Rightarrow> ChildElem \<Rightarrow> Linked" where
  "lookupChild registry srcRef m child =
     (let n = childName child in
      if isImportArg srcRef n then noLinked
      else
        case registry m n of
          Some r \<Rightarrow>
            noLinked\<lparr>found := [importedRef srcRef m r],
                     assigned := [(child, importedRef srcRef m r)]\<rparr>
        | None \<Rightarrow>
            (case find (\<lambda>d. elemName d = n) (fns m @ structs m @ aliases m) of
               Some d \<Rightarrow>
                 noLinked\<lparr>found := [Txt (TextRef m d (Some (elemName d)) None)],
                          assigned := [(child, Txt (TextRef m d (Some (elemName d)) None))]\<rparr>
             | None \<Rightarrow>
                 noLinked\<lparr>logged :=
                   [moduleLog (expMod srcRef) (childStart child)
                      [''reference not found: '' @ n]]\<rparr>))"

text \<open>
  The assignments made and the diagnostics logged when the refs of a list are expanded,
  each in its own module; and a traversal step that does nothing but expand refs.
\<close>

definition assignedIn :: "ParsedRegistry \<Rightarrow> TextRef list \<Rightarrow> (ChildElem \<times> FoundRef) list" where
  "assignedIn registry ts = concat (map (\<lambda>t. assigned (elemRefs registry t (expMod t))) ts)"

definition loggedIn :: "ParsedRegistry \<Rightarrow> TextRef list \<Rightarrow> Diagnostic list" where
  "loggedIn registry ts = concat (map (\<lambda>t. logged (elemRefs registry t (expMod t))) ts)"

definition expands :: "ParsedRegistry \<Rightarrow> Traversal \<Rightarrow> Traversal \<Rightarrow> bool" where
  "expands registry st st' \<longleftrightarrow>
     (\<exists>new. recursedInto st' = recursedInto st @ new
        \<and> assignments st' = assignments st @ assignedIn registry new
        \<and> diagnostics st' = diagnostics st @ loggedIn registry new)"

text \<open>
  Inputs for the lookup: a function that calls itself and the builtin \<open>min\<close>; and a
  module L whose function \<open>f\<close>, reached through an import with the export parameter \<open>T\<close>,
  calls itself, \<open>min\<close>, the imported \<open>a1\<close>, the local \<open>g\<close> and the unknown \<open>nowhere\<close>, and
  refers to the types \<open>T\<close> and \<open>f32\<close>.
\<close>

definition selfMod :: TextModule where
  "selfMod = moduleOf ''main'' [fnElem ''f'' [callTo ''f'' 10, callTo ''min'' 20]]"

definition lookupFn :: TargetElem where
  "lookupFn = (fnElem ''f'' [callTo ''f'' 1, callTo ''min'' 2, callTo ''a1'' 3, callTo ''g'' 4,
       callTo ''nowhere'' 5])
     \<lparr>typeRefs := [typeRefTo ''T'' 6, typeRefTo ''f32'' 7]\<rparr>"

definition lookupMod :: TextModule where
  "lookupMod = moduleOf ''L'' [lookupFn, fnElem ''g'' []]"

definition lookupRegistry :: ParsedRegistry where
  "lookupRegistry m n = (if m = lookupMod \<and> n = ''a1'' then exported modA n else None)"

definition lookupRef :: TextRef where
  "lookupRef = TextRef lookupMod lookupFn (Some ''f'')
     (Some (ExportInfo (mainRef mainAB) None [(''T'', ''u32'')]))"

text \<open>
  The refs of a list that the callback accepts: the first occurrence of each full name
  that was not seen before.
\<close>

fun accepted :: "('a \<Rightarrow> 'k) \<Rightarrow> 'k set \<Rightarrow> 'a list \<Rightarrow> 'a list" where
  "accepted key seen0 [] = []"
| "accepted key seen0 (r # rs) =
     (if key r \<in> seen0 then accepted key seen0 rs
      else r # accepted key (insert (key r) seen0) rs)"

text \<open>
  The order of delivery. A sweep over a list of refs, started with a set of seen full
  names, delivers the refs of the list in the order of the list; then it groups the
  accepted text refs by exporting module and handles the groups one after the other.
  A group is handled by a sweep over all the references found inside the refs of the
  group, which is finished before the next group is started. The last argument is the set
  of seen full names at the end.
\<close>

inductive sweep ::
  "ParsedRegistry \<Rightarrow> (FoundRef \<Rightarrow> string) \<Rightarrow> string set \<Rightarrow> FoundRef list \<Rightarrow> FoundRef list
     \<Rightarrow> string set \<Rightarrow> bool"
and sweepGroups ::
  "ParsedRegistry \<Rightarrow> (FoundRef \<Rightarrow> string) \<Rightarrow> string set \<Rightarrow> (TextModule \<times> TextRef list) list
     \<Rightarrow> FoundRef list \<Rightarrow> string set \<Rightarrow> bool"
for registry :: ParsedRegistry and key :: "FoundRef \<Rightarrow> string" where
  wave: "sweepGroups registry key (seen0 \<union> key ` set refs)
           (groupBy expMod (textRefs (accepted key seen0 refs))) deeper seen1
         \<Longrightarrow> sweep registry key seen0 refs (refs @ deeper) seen1"
| no_group: "sweepGroups registry key seen0 [] [] seen0"
| group: "sweep registry key seen0 (found (elemRefsAll registry m rs)) d seen1
         \<Longrightarrow> sweepGroups registry key seen1 groups ds seen2
         \<Longrightarrow> sweepGroups registry key seen0 ((m, rs) # groups) (d @ ds) seen2"

text \<open>
  Modules A and B whose exported functions call local functions: \<open>a1\<close> calls \<open>a3\<close>, \<open>a2\<close>
  calls \<open>a4\<close>, \<open>b1\<close> calls \<open>b2\<close>.
\<close>

definition deepA :: TextModule where
  "deepA = moduleOf ''A'' [fnElem ''a1'' [callTo ''a3'' 5], fnElem ''a2'' [callTo ''a4'' 5],
     fnElem ''a3'' [], fnElem ''a4'' []]"

definition deepB :: TextModule where
  "deepB = moduleOf ''B'' [fnElem ''b1'' [callTo ''b2'' 5], fnElem ''b2'' []]"

definition deepRegistry :: ParsedRegistry where
  "deepRegistry m n =
     (if m = mainAB then
        (if n = ''a1'' \<or> n = ''a2'' then exported deepA n
         else if n = ''b1'' then exported deepB n else None)
      else None)"

section \<open>Import and export parameters (packages/linker/src/TraverseRefs.ts)\<close>






section \<open>Source maps: compaction\<close>

lemma destToSrc_append:
  "destToSrc p (xs @ ys) = (case destToSrc p xs of Inl _ \<Rightarrow> destToSrc p ys | Inr r \<Rightarrow> Inr r)"
  by (induction xs) (auto simp: destToSrc_def)

lemma destToSrc_merged_pair:
  assumes "lengthPreserving prev"
    and "destEnd prev = destStart e" and "srcEnd prev = srcStart e" and "src e = src prev"
    and "destStart e \<le> destEnd e"
  shows "destToSrc p (prev\<lparr>destEnd := destEnd e, srcEnd := srcEnd e\<rparr> # es)
       = destToSrc p (prev # e # es)"
  using assms by (auto simp: destToSrc_def lengthPreserving_def)

lemma lengthPreserving_merged:
  assumes "lengthPreserving prev" and "lengthPreserving e"
    and "destEnd prev = destStart e" and "srcEnd prev = srcStart e"
  shows "lengthPreserving (prev\<lparr>destEnd := destEnd e, srcEnd := srcEnd e\<rparr>)"
  using assms by (auto simp: lengthPreserving_def)

lemma destToSrc_compactLoop:
  assumes "lengthPreserving prev" and "\<forall>e \<in> set es. lengthPreserving e"
  shows "destToSrc p (compactLoop prev done es) = destToSrc p (done @ prev # es)"
  using assms
proof (induction es arbitrary: prev "done")
  case Nil
  show ?case by simp
next
  case (Cons e es)
  have e: "lengthPreserving e" and es: "\<forall>x \<in> set es. lengthPreserving x"
    using Cons.prems(2) by simp_all
  show ?case
  proof (cases "src e = src prev \<and> destEnd prev = destStart e \<and> srcEnd prev = srcStart e")
    case True
    let ?m = "prev\<lparr>destEnd := destEnd e, srcEnd := srcEnd e\<rparr>"
    have "lengthPreserving ?m"
      using lengthPreserving_merged [OF Cons.prems(1) e] True by simp
    then have "destToSrc p (compactLoop ?m done es) = destToSrc p (done @ ?m # es)"
      using Cons.IH es by blast
    moreover have "destToSrc p (?m # es) = destToSrc p (prev # e # es)"
      using destToSrc_merged_pair [OF Cons.prems(1)] True e
      by (simp add: lengthPreserving_def)
    ultimately show ?thesis
      using True by (simp add: destToSrc_append [of p "done"] split: sum.splits)
  next
    case False
    have "destToSrc p (compactLoop e (done @ [prev]) es) = destToSrc p ((done @ [prev]) @ e # es)"
      using Cons.IH [OF e es] .
    then show ?thesis using False by auto
  qed
qed

lemma destToSrc_compactEntries:
  assumes "\<forall>e \<in> set es. lengthPreserving e"
  shows "destToSrc p (compactEntries es) = destToSrc p es"
proof (cases es)
  case Nil
  then show ?thesis by (simp add: compactEntries_def)
next
  case (Cons e0 rest)
  then show ?thesis
    using assms destToSrc_compactLoop [of e0 rest p "[]"] by (simp add: compactEntries_def)
qed

lemma mapThrowing_cong:
  assumes "\<And>x. x \<in> set xs \<Longrightarrow> f x = g x"
  shows "mapThrowing f xs = mapThrowing g xs"
  using assms by (induction xs) (simp_all split: sum.splits)



text \<open>
  Merging two adjacent entries is harmless when the entries are length preserving, which
  the merge test of \<open>compact\<close> does not check.
\<close>

lemma compact_lengthPreserving:
  assumes "\<forall>e \<in> set (entries m). lengthPreserving e"
  shows "mapPositions (compact m) ps = mapPositions m ps"
  unfolding mapPositions_def compact_def
  by (rule mapThrowing_cong) (simp add: destToSrc_compactEntries [OF assms])

text \<open>
  C10. \<open>compact\<close> changes what \<open>mapPositions\<close> returns. In a map whose first entry
  replaces three source characters by five and whose second entry continues the same source
  right after it, position 7 maps to \<open>{src: a, position: 5}\<close> before compaction and to
  \<open>{src: a, position: 7}\<close> after it: the two entries are merged into one entry from
  source 0..8 to destination 0..10, because the merge test compares the end points only and
  not the lengths of the ranges.
\<close>

theorem compact_shifts_positions:
  "mapPositions replacedMap [7] = Inr [\<lparr>posSrc = ''a'', position = 5\<rparr>]
   \<and> entries (compact replacedMap) = [entry ''a'' 0 8 0 10]
   \<and> mapPositions (compact replacedMap) [7] = Inr [\<lparr>posSrc = ''a'', position = 7\<rparr>]"
  by (simp add: mapPositions_def compact_def compactEntries_def replacedMap_def entry_def
      destToSrc_def)

section \<open>Source maps: merging\<close>


text \<open>
  C3. Merging does not compose the two maps when an entry of M2 spans two entries of M1 that
  have the same src. M1 drops the five characters in the middle of its source, M2 is the
  identity on M1's destination text. Position 7 maps to 7 through M2 and from there to 12
  through M1, but to 7 through \<open>M1.merge(M2)\<close>: both end points of M2's entry map into
  the same source, so the test that throws "NYI, need to split" lets the entry through
  unsplit.
\<close>

theorem merge_spanning_entry:
  "merge False gapMap identityMap
     = Inr ([], \<lparr>dest = ''aaaaabbbbb'', entries = [entry ''aaaaaxxxxxbbbbb'' 0 15 0 10]\<rparr>)
   \<and> list_all (\<lambda>e. src e = dest gapMap) (entries identityMap)
   \<and> mapPositions identityMap [7] = Inr [\<lparr>posSrc = ''aaaaabbbbb'', position = 7\<rparr>]
   \<and> mapPositions gapMap [7] = Inr [\<lparr>posSrc = ''aaaaaxxxxxbbbbb'', position = 12\<rparr>]
   \<and> mapPositions \<lparr>dest = ''aaaaabbbbb'', entries = [entry ''aaaaaxxxxxbbbbb'' 0 15 0 10]\<rparr> [7]
       = Inr [\<lparr>posSrc = ''aaaaaxxxxxbbbbb'', position = 7\<rparr>]"
  by (simp add: merge_def mapPositions_def gapMap_def identityMap_def entry_def reproject_def
      destToSrc_def)

section \<open>Source lines\<close>
























section \<open>Struct merges in parseModule\<close>

text \<open>
  C8. \<open>parseModule\<close> calls \<open>matchMergeImports\<close> twice. One call logs one diagnostic for a
  directive that no struct follows, and appends a directive to the struct that follows it
  once; \<open>parseModule\<close> logs the diagnostic twice and appends the directive twice.
\<close>

theorem parseModule_merges_twice:
  "snd (matchMergeImports ([ImportMerge mergeFoo], []))
     = [\<lparr>logPos = 0, logMsg = ''#extends not followed by a struct''\<rparr>]
   \<and> snd (parseModule [ImportMerge mergeFoo])
     = [\<lparr>logPos = 0, logMsg = ''#extends not followed by a struct''\<rparr>,
        \<lparr>logPos = 0, logMsg = ''#extends not followed by a struct''\<rparr>]
   \<and> fst (matchMergeImports ([ImportMerge mergeFoo, Struct structB], []))
     = [ImportMerge mergeFoo, Struct (structB\<lparr>importMerges := Some [mergeFoo]\<rparr>)]
   \<and> modStructs (fst (parseModule [ImportMerge mergeFoo, Struct structB]))
     = [Struct (structB\<lparr>importMerges := Some [mergeFoo, mergeFoo]\<rparr>)]"
  by (simp add: parseModule_def matchMergeImports_def findExports_def findKind_def mergeStep_def
      filterElems_def srcLog_def nextFrom.simps structB_def mergeFoo_def)

section \<open>Pairing export parameters with import arguments\<close>



section \<open>Scoped matchers\<close>

lemma withMatcherIgnore_returns:
  assumes "fn (pushMatcher m ig lx) = (Returned r, lx2)"
    and "matcherStack lx2 = matcherStack (pushMatcher m ig lx)"
  shows "\<exists>lx'. withMatcherIgnore m ig fn lx = (Returned r, lx')
     \<and> matcher lx' = matcher lx \<and> ignore lx' = ignore lx
     \<and> matcherStack lx' = matcherStack lx
     \<and> cursor (heap lx' (matcher lx')) = cursor (heap lx2 (matcher lx2))"
  using assms
  by (simp add: withMatcherIgnore_def popMatcher_def pushMatcher_def Let_def
      matcherSetPosition_def)

lemma balanced_lexPosition:
  "balanced (\<lambda>lx. case lexPosition pos lx of (p, lx') \<Rightarrow> (Returned p, lx'))"
  by (auto simp: balanced_def lexPosition_def split: option.splits)

lemma balanced_withMatcherIgnore:
  assumes "balanced fn"
  shows "balanced (withMatcherIgnore m ig fn)"
  unfolding balanced_def
proof (intro allI impI)
  fix lx r lx'
  assume run: "withMatcherIgnore m ig fn lx = (Returned r, lx')"
  obtain out lx2 where f: "fn (pushMatcher m ig lx) = (out, lx2)" by (cases "fn (pushMatcher m ig lx)")
  then have out: "out = Returned r"
    using run by (cases out) (simp_all add: withMatcherIgnore_def)
  then have "matcherStack lx2 = matcherStack (pushMatcher m ig lx)"
    using assms f by (simp add: balanced_def)
  then show "matcher lx' = matcher lx \<and> ignore lx' = ignore lx \<and> matcherStack lx' = matcherStack lx"
    using withMatcherIgnore_returns [of fn m ig lx r lx2] f out run by auto
qed

lemma balanced_then:
  assumes "balanced f" and "\<And>x. balanced (g x)"
  shows "balanced (\<lambda>lx. case f lx of (Thrown e, lx') \<Rightarrow> (Thrown e, lx')
                          | (Returned x, lx') \<Rightarrow> g x lx')"
  using assms unfolding balanced_def
  by (auto split: prod.splits outcome.splits)

lemma withMatcherIgnore_throws:
  assumes "fn (pushMatcher m ig lx) = (Thrown e, lx2)"
  shows "withMatcherIgnore m ig fn lx = (Thrown e, lx2)"
  using assms by (simp add: withMatcherIgnore_def)

text \<open>
  C5, as amended. When \<open>fn\<close> returns and has left the matcher stack as it found it,
  \<open>withMatcher(m, fn)\<close> and \<open>withIgnore(i, fn)\<close> return its result with the active matcher,
  the ignore set and the matcher stack as they were before the call, and the position of
  the restored matcher is the position of the matcher that was active when \<open>fn\<close> returned.
  When \<open>fn\<close> throws, they throw the same exception and leave the lexer exactly as \<open>fn\<close>
  left it: nothing is popped and nothing is restored.
\<close>

theorem scoped_restore:
  "(fn (pushMatcher m (ignore lx) lx) = (Returned r, lx2)
      \<and> matcherStack lx2 = matcherStack (pushMatcher m (ignore lx) lx)
    \<longrightarrow> (\<exists>lx'. withMatcher m fn lx = (Returned r, lx')
          \<and> matcher lx' = matcher lx \<and> ignore lx' = ignore lx
          \<and> matcherStack lx' = matcherStack lx
          \<and> cursor (heap lx' (matcher lx')) = cursor (heap lx2 (matcher lx2))))
   \<and> (fn (pushMatcher (matcher lx) i lx) = (Returned r, lx3)
      \<and> matcherStack lx3 = matcherStack (pushMatcher (matcher lx) i lx)
    \<longrightarrow> (\<exists>lx'. withIgnore i fn lx = (Returned r, lx')
          \<and> matcher lx' = matcher lx \<and> ignore lx' = ignore lx
          \<and> matcherStack lx' = matcherStack lx
          \<and> cursor (heap lx' (matcher lx')) = cursor (heap lx3 (matcher lx3))))
   \<and> (fn (pushMatcher m (ignore lx) lx) = (Thrown e, lx4)
    \<longrightarrow> withMatcher m fn lx = (Thrown e, lx4))
   \<and> (fn (pushMatcher (matcher lx) i lx) = (Thrown e, lx5)
    \<longrightarrow> withIgnore i fn lx = (Thrown e, lx5))"
  using withMatcherIgnore_returns [of fn m "ignore lx" lx r lx2]
    withMatcherIgnore_returns [of fn "matcher lx" i lx r lx3]
    withMatcherIgnore_throws [of fn m "ignore lx" lx e lx4]
    withMatcherIgnore_throws [of fn "matcher lx" i lx e lx5]
  by (simp add: withMatcher_def withIgnore_def)

theorem scoped_restore_witness:
  "fst (withMatcher 1 seekThree lexer0) = Returned 3
   \<and> matcher (snd (withMatcher 1 seekThree lexer0)) = 0
   \<and> ignore (snd (withMatcher 1 seekThree lexer0)) = {''ws''}
   \<and> matcherStack (snd (withMatcher 1 seekThree lexer0)) = []
   \<and> cursor (heap (snd (withMatcher 1 seekThree lexer0)) 0) = 3
   \<and> fst (withIgnore {} seekThree lexer0) = Returned 3
   \<and> matcher (snd (withIgnore {} seekThree lexer0)) = 0
   \<and> ignore (snd (withIgnore {} seekThree lexer0)) = {''ws''}
   \<and> matcherStack (snd (withIgnore {} seekThree lexer0)) = []
   \<and> cursor (heap (snd (withIgnore {} seekThree lexer0)) 0) = 3
   \<and> fst (withMatcher 1 (withMatcher 2 throwing) lexer0) = Thrown ''boom''
   \<and> matcher (snd (withMatcher 1 (withMatcher 2 throwing) lexer0)) = 2
   \<and> matcherStack (snd (withMatcher 1 (withMatcher 2 throwing) lexer0))
       = [(1, {''ws''}), (0, {''ws''})]
   \<and> fst (withIgnore {} throwing lexer0) = Thrown ''boom''
   \<and> ignore (snd (withIgnore {} throwing lexer0)) = {}"
proof -
  define lx2 where "lx2 = snd (seekThree (pushMatcher 1 (ignore lexer0) lexer0))"
  define lx3 where "lx3 = snd (seekThree (pushMatcher (matcher lexer0) {} lexer0))"
  define lx4 where "lx4 = snd (withMatcher 2 throwing (pushMatcher 1 (ignore lexer0) lexer0))"
  define lx5 where "lx5 = snd (throwing (pushMatcher (matcher lexer0) {} lexer0))"
  have a: "seekThree (pushMatcher 1 (ignore lexer0) lexer0) = (Returned 3, lx2)"
    by (simp add: lx2_def seekThree_def lexPosition_def pushMatcher_def matcherStart_def
        split: prod.splits)
  have b: "matcherStack lx2 = matcherStack (pushMatcher 1 (ignore lexer0) lexer0)"
    by (simp add: lx2_def seekThree_def lexPosition_def split: prod.splits)
  have c: "seekThree (pushMatcher (matcher lexer0) {} lexer0) = (Returned 3, lx3)"
    by (simp add: lx3_def seekThree_def lexPosition_def pushMatcher_def matcherStart_def
        split: prod.splits)
  have d: "matcherStack lx3 = matcherStack (pushMatcher (matcher lexer0) {} lexer0)"
    by (simp add: lx3_def seekThree_def lexPosition_def split: prod.splits)
  have e: "cursor (heap lx2 (matcher lx2)) = 3"
    by (simp add: lx2_def seekThree_def lexPosition_def pushMatcher_def matcherStart_def
        split: prod.splits)
  have f: "cursor (heap lx3 (matcher lx3)) = 3"
    by (simp add: lx3_def seekThree_def lexPosition_def pushMatcher_def matcherStart_def
        split: prod.splits)
  have g: "matcher lexer0 = 0" "ignore lexer0 = {''ws''}" "matcherStack lexer0 = []"
    by (simp_all add: lexer0_def matchingLexer_def)
  have t1: "withMatcher 2 throwing (pushMatcher 1 (ignore lexer0) lexer0) = (Thrown ''boom'', lx4)"
    by (simp add: lx4_def withMatcher_def withMatcherIgnore_def throwing_def)
  have t2: "throwing (pushMatcher (matcher lexer0) {} lexer0) = (Thrown ''boom'', lx5)"
    by (simp add: lx5_def throwing_def)
  have l4: "matcher lx4 = 2" "matcherStack lx4 = [(1, {''ws''}), (0, {''ws''})]"
    by (simp_all add: lx4_def withMatcher_def withMatcherIgnore_def throwing_def pushMatcher_def
        lexer0_def matchingLexer_def)
  have l5: "ignore lx5 = {}"
    by (simp add: lx5_def throwing_def pushMatcher_def)
  obtain lx' where m: "withMatcher 1 seekThree lexer0 = (Returned 3, lx')"
      "matcher lx' = matcher lexer0" "ignore lx' = ignore lexer0"
      "matcherStack lx' = matcherStack lexer0"
      "cursor (heap lx' (matcher lx')) = cursor (heap lx2 (matcher lx2))"
    using scoped_restore [of seekThree 1 lexer0 3 lx2 "{}" lx3] a b by blast
  obtain lx'' where i: "withIgnore {} seekThree lexer0 = (Returned 3, lx'')"
      "matcher lx'' = matcher lexer0" "ignore lx'' = ignore lexer0"
      "matcherStack lx'' = matcherStack lexer0"
      "cursor (heap lx'' (matcher lx'')) = cursor (heap lx3 (matcher lx3))"
    using scoped_restore [of seekThree 1 lexer0 3 lx2 "{}" lx3] c d by blast
  have th1: "withMatcher 1 (withMatcher 2 throwing) lexer0 = (Thrown ''boom'', lx4)"
    using scoped_restore [where fn = "withMatcher 2 throwing" and m = 1 and lx = lexer0
        and e = "''boom''" and ?lx4.0 = lx4] t1 by blast
  have th2: "withIgnore {} throwing lexer0 = (Thrown ''boom'', lx5)"
    using scoped_restore [where fn = throwing and i = "{}" and lx = lexer0
        and e = "''boom''" and ?lx5.0 = lx5] t2 by blast
  show ?thesis
    using m i e f g th1 th2 l4 l5 by simp
qed

text \<open>
  C5 as stated fails when \<open>fn\<close> throws: after \<open>withMatcher(1, throwing)\<close>, called with
  matcher 0 active and an empty stack, matcher 1 is still active and the frame pushed for
  the call is still on the stack.
\<close>

theorem scoped_restore_counterexample:
  "fst (withMatcher 1 throwing lexer0) = Thrown ''boom''
   \<and> matcher lexer0 = 0 \<and> matcherStack lexer0 = []
   \<and> matcher (snd (withMatcher 1 throwing lexer0)) = 1
   \<and> matcherStack (snd (withMatcher 1 throwing lexer0)) = [(0, {''ws''})]"
  by (simp add: withMatcher_def withMatcherIgnore_def throwing_def pushMatcher_def lexer0_def
      matchingLexer_def)

section \<open>Traversal steps\<close>

lemma noteLinked_fields [simp]:
  "seen (noteLinked l st) = seen st"
  "delivered (noteLinked l st) = delivered st"
  "recursedInto (noteLinked l st) = recursedInto st"
  by (simp_all add: noteLinked_def)

lemma eachRef_fields:
  "delivered (snd (eachRef key r st)) = delivered st @ [r]"
  "seen (snd (eachRef key r st)) = insert (key r) (seen st)"
  "recursedInto (snd (eachRef key r st)) = recursedInto st"
  "fst (eachRef key r st) \<longleftrightarrow> key r \<notin> seen st"
  by (auto simp: eachRef_def Let_def)

lemma filterEach_Cons:
  "filterEach key (r # rs) st =
     ((if fst (eachRef key r st) then [r] else [])
        @ fst (filterEach key rs (snd (eachRef key r st))),
      snd (filterEach key rs (snd (eachRef key r st))))"
  by (simp split: prod.splits)

declare filterEach.simps(2) [simp del]

lemma filterEach_delivered:
  "delivered (snd (filterEach key refs st)) = delivered st @ refs"
proof (induction refs arbitrary: st)
  case Nil
  show ?case by simp
next
  case (Cons r rs)
  show ?case
    unfolding filterEach_Cons by (simp add: Cons.IH eachRef_fields)
qed

lemma filterEach_seen:
  "seen (snd (filterEach key refs st)) = seen st \<union> key ` set refs"
  by (induction refs arbitrary: st) (simp_all add: filterEach_Cons eachRef_fields)

lemma filterEach_recursedInto:
  "recursedInto (snd (filterEach key refs st)) = recursedInto st"
  by (induction refs arbitrary: st) (simp_all add: filterEach_Cons eachRef_fields)

lemma filterEach_kept:
  "set (fst (filterEach key refs st)) \<subseteq> set refs
   \<and> key ` set (fst (filterEach key refs st)) \<inter> seen st = {}
   \<and> distinct (map key (fst (filterEach key refs st)))"
proof (induction refs arbitrary: st)
  case Nil
  show ?case by simp
next
  case (Cons r rs)
  let ?st1 = "snd (eachRef key r st)"
  have ih: "set (fst (filterEach key rs ?st1)) \<subseteq> set rs"
    "key ` set (fst (filterEach key rs ?st1)) \<inter> insert (key r) (seen st) = {}"
    "distinct (map key (fst (filterEach key rs ?st1)))"
    using Cons.IH [of ?st1] by (simp_all add: eachRef_fields)
  show ?case
    unfolding filterEach_Cons using ih by (auto simp: eachRef_fields)
qed

lemma set_textRefs: "t \<in> set (textRefs rs) \<longleftrightarrow> Txt t \<in> set rs"
  by (induction rs rule: textRefs.induct) auto

lemma distinct_textRefs:
  "distinct (map key rs) \<Longrightarrow> distinct (map (\<lambda>t. key (Txt t)) (textRefs rs))"
proof (induction rs rule: textRefs.induct)
  case 1
  show ?case by simp
next
  case (2 t rs)
  then show ?case by (auto simp: set_textRefs)
next
  case (3 g rs)
  then show ?case by simp
qed

lemma mset_groupBy:
  "mset (concat (map snd (groupBy f xs))) = mset xs"
proof (induction f xs rule: groupBy.induct)
  case (1 f)
  show ?case by simp
next
  case (2 f x xs)
  have "mset (filter (\<lambda>y. f y = f x) xs) + mset (filter (\<lambda>y. f y \<noteq> f x) xs) = mset xs"
    by (induction xs) simp_all
  then show ?case using 2 by simp
qed

lemma groupBy_keys:
  "(k, rs) \<in> set (groupBy f xs) \<Longrightarrow> r \<in> set rs \<Longrightarrow> f r = k"
  by (induction f xs rule: groupBy.induct) auto

lemma set_groupBy: "set (concat (map snd (groupBy f xs))) = set xs"
  using mset_groupBy [of f xs] by (metis set_mset_mset)

lemma distinct_groupBy:
  assumes "distinct (map k xs)"
  shows "distinct (map k (concat (map snd (groupBy f xs))))"
proof -
  have "mset (map k (concat (map snd (groupBy f xs)))) = mset (map k xs)"
    using mset_groupBy [of f xs] by (metis mset_map)
  then show ?thesis using assms by (metis mset_eq_imp_distinct_iff)
qed

lemma found_elemRefsAll:
  "set (found (elemRefsAll registry m refs)) = (\<Union>t \<in> set refs. set (found (elemRefs registry t m)))"
  by (induction refs) (simp_all add: elemRefsAll_def andThen_def noLinked_def)

lemma forGroups_grows:
  fixes key :: "FoundRef \<Rightarrow> string"
  defines "keyT \<equiv> \<lambda>t. key (Txt t)"
  assumes fin: "finite K"
    and rec: "\<And>refs st. set refs \<subseteq> R \<Longrightarrow> card (K - seen st) < n
               \<Longrightarrow> \<exists>st'. recurse refs st = Some st' \<and> grows keyT (seen st) st st'"
    and closed: "\<And>t. Txt t \<in> R \<Longrightarrow> set (found (elemRefs registry t (expMod t))) \<subseteq> R"
  shows "(\<forall>(m, rs) \<in> set groups. \<forall>t \<in> set rs. expMod t = m \<and> Txt t \<in> R)
    \<Longrightarrow> distinct (map keyT (concat (map snd groups)))
    \<Longrightarrow> keyT ` set (concat (map snd groups)) \<subseteq> seen st
    \<Longrightarrow> card (K - seen st) < n
    \<Longrightarrow> \<exists>st'. forGroups recurse registry groups st = Some st'
          \<and> grows keyT (seen st - keyT ` set (concat (map snd groups))) st st'"
proof (induction groups arbitrary: st)
  case Nil
  show ?case by (simp add: grows_def)
next
  case (Cons g groups)
  obtain m rs where g: "g = (m, rs)" by (cases g)
  let ?G' = "concat (map snd groups)"
  have wf': "\<forall>(m, rs) \<in> set groups. \<forall>t \<in> set rs. expMod t = m \<and> Txt t \<in> R"
    using Cons.prems(1) by simp
  have rsR: "\<forall>t \<in> set rs. expMod t = m \<and> Txt t \<in> R" using Cons.prems(1) g by simp
  have dist: "distinct (map keyT rs)" "distinct (map keyT ?G')"
    "keyT ` set rs \<inter> keyT ` set ?G' = {}"
    using Cons.prems(2) g by auto
  have inseen: "keyT ` set rs \<subseteq> seen st" "keyT ` set ?G' \<subseteq> seen st"
    using Cons.prems(3) g by auto
  show ?case
  proof (cases "rs = []")
    case True
    obtain st' where "forGroups recurse registry groups st = Some st'"
      and "grows keyT (seen st - keyT ` set ?G') st st'"
      using Cons.IH [OF wf' dist(2) inseen(2) Cons.prems(4)] by blast
    then show ?thesis using True g by simp
  next
    case False
    let ?l = "elemRefsAll registry m rs"
    let ?st1 = "noteLinked ?l (st\<lparr>recursedInto := recursedInto st @ rs\<rparr>)"
    have "set (found ?l) \<subseteq> R"
      using rsR closed by (fastforce simp: found_elemRefsAll)
    moreover have "card (K - seen ?st1) < n" using Cons.prems(4) by simp
    ultimately obtain st2 where r2: "recurse (found ?l) ?st1 = Some st2"
      and g2: "grows keyT (seen ?st1) ?st1 st2"
      using rec by blast
    obtain new1 where s2: "seen st \<subseteq> seen st2"
      and n1: "recursedInto st2 = (recursedInto st @ rs) @ new1" "distinct (map keyT new1)"
        "keyT ` set new1 \<subseteq> seen st2" "keyT ` set new1 \<inter> seen st = {}"
      using g2 by (auto simp: grows_def)
    have "K - seen st2 \<subseteq> K - seen st" using s2 by blast
    then have "card (K - seen st2) \<le> card (K - seen st)"
      using fin by (simp add: card_mono)
    then have c2: "card (K - seen st2) < n" using Cons.prems(4) by simp
    have in2: "keyT ` set ?G' \<subseteq> seen st2" using inseen(2) s2 by blast
    obtain st' where r3: "forGroups recurse registry groups st2 = Some st'"
      and g3: "grows keyT (seen st2 - keyT ` set ?G') st2 st'"
      using Cons.IH [OF wf' dist(2) in2 c2] by blast
    obtain new2 where s3: "seen st2 \<subseteq> seen st'"
      and n2: "recursedInto st' = recursedInto st2 @ new2" "distinct (map keyT new2)"
        "keyT ` set new2 \<subseteq> seen st'" "keyT ` set new2 \<inter> (seen st2 - keyT ` set ?G') = {}"
      using g3 by (auto simp: grows_def)
    have run: "forGroups recurse registry (g # groups) st = Some st'"
      using g False r2 r3 by (simp add: Let_def)
    have total: "recursedInto st' = recursedInto st @ (rs @ new1 @ new2)"
      using n1(1) n2(1) by simp
    define A where "A = keyT ` set rs"
    define G where "G = keyT ` set ?G'"
    define N1 where "N1 = keyT ` set new1"
    define N2 where "N2 = keyT ` set new2"
    have facts: "A \<subseteq> seen st" "G \<subseteq> seen st" "A \<inter> G = {}" "seen st \<subseteq> seen st2"
      "seen st2 \<subseteq> seen st'" "N1 \<subseteq> seen st2" "N1 \<inter> seen st = {}" "N2 \<subseteq> seen st'"
      "N2 \<inter> (seen st2 - G) = {}"
      using inseen dist(3) s2 s3 n1(3,4) n2(3,4) unfolding A_def G_def N1_def N2_def by simp_all
    have d1: "A \<inter> N1 = {}" using facts(1,7) by blast
    have d2: "A \<inter> N2 = {}" using facts(1,3,4,9) by blast
    have d3: "N1 \<inter> N2 = {}" using facts(2,6,7,9) by blast
    have dd: "distinct (map keyT (rs @ new1 @ new2))"
      using dist(1) n1(2) n2(2) d1 d2 d3 unfolding A_def N1_def N2_def
      by (simp add: Int_Un_distrib Int_commute)
    have sub: "A \<union> N1 \<union> N2 \<subseteq> seen st'" using facts(1,4,5,6,8) by blast
    have old: "(A \<union> N1 \<union> N2) \<inter> (seen st - (A \<union> G)) = {}" using facts(4,7,9) by blast
    have img: "keyT ` set (rs @ new1 @ new2) = A \<union> N1 \<union> N2"
      unfolding A_def N1_def N2_def by (simp add: image_Un Un_assoc)
    have cat: "keyT ` set (concat (map snd (g # groups))) = A \<union> G"
      unfolding A_def G_def using g by (simp add: image_Un)
    have "grows keyT (seen st - keyT ` set (concat (map snd (g # groups)))) st st'"
      unfolding grows_def cat
    proof (intro conjI exI [of _ "rs @ new1 @ new2"])
      show "seen st \<subseteq> seen st'" using facts(4,5) by blast
      show "recursedInto st' = recursedInto st @ rs @ new1 @ new2" using total .
      show "distinct (map keyT (rs @ new1 @ new2))" using dd .
      show "keyT ` set (rs @ new1 @ new2) \<subseteq> seen st'" unfolding img using sub .
      show "keyT ` set (rs @ new1 @ new2) \<inter> (seen st - (A \<union> G)) = {}"
        unfolding img using old .
    qed
    then show ?thesis using run by blast
  qed
qed

lemma recursiveRefs_grows:
  fixes key :: "FoundRef \<Rightarrow> string"
  defines "keyT \<equiv> \<lambda>t. key (Txt t)"
  assumes fin: "finite K" and keys: "key ` R \<subseteq> K"
    and closed: "\<And>t. Txt t \<in> R \<Longrightarrow> set (found (elemRefs registry t (expMod t))) \<subseteq> R"
  shows "set refs \<subseteq> R \<Longrightarrow> card (K - seen st) < n
    \<Longrightarrow> \<exists>st'. recursiveRefs n key registry refs st = Some st' \<and> grows keyT (seen st) st st'"
proof (induction n arbitrary: refs st)
  case 0
  then show ?case by simp
next
  case (Suc n)
  define filtered where "filtered = fst (filterEach key refs st)"
  define st1 where "st1 = snd (filterEach key refs st)"
  define G where "G = textRefs filtered"
  define groups where "groups = groupBy expMod G"
  have fe: "filterEach key refs st = (filtered, st1)" by (simp add: filtered_def st1_def)
  have seen1: "seen st1 = seen st \<union> key ` set refs"
    and rec1: "recursedInto st1 = recursedInto st"
    unfolding st1_def by (simp_all add: filterEach_seen filterEach_recursedInto)
  have kept: "set filtered \<subseteq> set refs" "key ` set filtered \<inter> seen st = {}"
    "distinct (map key filtered)"
    unfolding filtered_def using filterEach_kept [of key refs st] by simp_all
  have GR: "\<And>t. t \<in> set G \<Longrightarrow> Txt t \<in> R"
    using kept(1) Suc.prems(1) by (auto simp: G_def set_textRefs)
  have Gnew: "keyT ` set G \<inter> seen st = {}"
  proof -
    have "keyT t \<notin> seen st" if "t \<in> set G" for t
    proof -
      have "Txt t \<in> set filtered" using that by (simp add: G_def set_textRefs)
      then have "key (Txt t) \<in> key ` set filtered" by (rule imageI)
      then show ?thesis using kept(2) unfolding keyT_def by blast
    qed
    then show ?thesis by blast
  qed
  have Gseen: "keyT ` set G \<subseteq> seen st1"
    using kept(1) by (auto simp: G_def set_textRefs keyT_def seen1)
  have Gdist: "distinct (map keyT G)"
    unfolding G_def keyT_def using kept(3) by (rule distinct_textRefs)
  have cat: "set (concat (map snd groups)) = set G"
    unfolding groups_def by (rule set_groupBy)
  have run: "recursiveRefs (Suc n) key registry refs st
      = forGroups (recursiveRefs n key registry) registry groups st1"
    by (simp add: fe groups_def G_def)
  show ?case
  proof (cases "G = []")
    case True
    then have "recursiveRefs (Suc n) key registry refs st = Some st1"
      using run by (simp add: groups_def)
    moreover have "grows keyT (seen st) st st1"
      unfolding grows_def using seen1 rec1 by auto
    ultimately show ?thesis by blast
  next
    case False
    then obtain t where t: "t \<in> set G" by (cases G) auto
    have "keyT t \<in> K" using GR [OF t] keys by (auto simp: keyT_def)
    moreover have "keyT t \<notin> seen st" using Gnew t by blast
    moreover have "keyT t \<in> seen st1" using Gseen t by blast
    moreover have "seen st \<subseteq> seen st1" using seen1 by blast
    ultimately have "K - seen st1 \<subset> K - seen st" by blast
    then have "card (K - seen st1) < card (K - seen st)"
      using fin by (simp add: psubset_card_mono)
    then have c1: "card (K - seen st1) < n" using Suc.prems(2) by simp
    have wf: "\<forall>(m, rs) \<in> set groups. \<forall>t \<in> set rs. expMod t = m \<and> Txt t \<in> R"
    proof (clarify, intro conjI)
      fix m rs x assume g: "(m, rs) \<in> set groups" and x: "x \<in> set rs"
      show "expMod x = m" using g x unfolding groups_def by (rule groupBy_keys)
      have "x \<in> set (concat (map snd groups))" using g x by force
      then have "x \<in> set G" unfolding cat .
      then show "Txt x \<in> R" by (rule GR)
    qed
    have dist: "distinct (map keyT (concat (map snd groups)))"
      unfolding groups_def using Gdist by (rule distinct_groupBy)
    have sub: "keyT ` set (concat (map snd groups)) \<subseteq> seen st1" using cat Gseen by simp
    have "\<exists>st'. forGroups (recursiveRefs n key registry) registry groups st1 = Some st'
          \<and> grows keyT (seen st1 - keyT ` set (concat (map snd groups))) st1 st'"
      unfolding keyT_def
    proof (rule forGroups_grows [where K = K and R = R and n = n, OF fin])
      fix rs and s :: Traversal assume "set rs \<subseteq> R" "card (K - seen s) < n"
      then show "\<exists>st'. recursiveRefs n key registry rs s = Some st'
          \<and> grows (\<lambda>t. key (Txt t)) (seen s) s st'"
        using Suc.IH unfolding keyT_def by blast
    next
      fix t assume "Txt t \<in> R"
      then show "set (found (elemRefs registry t (expMod t))) \<subseteq> R" by (rule closed)
    next
      show "\<forall>(m, rs) \<in> set groups. \<forall>t \<in> set rs. expMod t = m \<and> Txt t \<in> R" using wf .
      show "distinct (map (\<lambda>t. key (Txt t)) (concat (map snd groups)))"
        using dist unfolding keyT_def .
      show "(\<lambda>t. key (Txt t)) ` set (concat (map snd groups)) \<subseteq> seen st1"
        using sub unfolding keyT_def .
      show "card (K - seen st1) < n" using c1 .
    qed
    then obtain st' where r: "forGroups (recursiveRefs n key registry) registry groups st1 = Some st'"
      and g: "grows keyT (seen st1 - keyT ` set G) st1 st'"
      using cat by auto
    obtain new where s': "seen st1 \<subseteq> seen st'"
      and n: "recursedInto st' = recursedInto st1 @ new" "distinct (map keyT new)"
        "keyT ` set new \<subseteq> seen st'" "keyT ` set new \<inter> (seen st1 - keyT ` set G) = {}"
      using g unfolding grows_def by blast
    define N where "N = keyT ` set new"
    define A where "A = keyT ` set G"
    have "seen st \<subseteq> seen st1 - A" using seen1 Gnew unfolding A_def by blast
    moreover have "N \<inter> (seen st1 - A) = {}" using n(4) unfolding N_def A_def .
    ultimately have "N \<inter> seen st = {}" by blast
    then have "keyT ` set new \<inter> seen st = {}" unfolding N_def .
    moreover have "seen st \<subseteq> seen st'" using seen1 s' by blast
    moreover have "recursedInto st' = recursedInto st @ new" using n(1) rec1 by simp
    ultimately have "grows keyT (seen st) st st'"
      unfolding grows_def using n(2,3) by blast
    then show ?thesis using run r by simp
  qed
qed

lemma forGroups_more:
  assumes "\<And>refs st st'. f refs st = Some st' \<Longrightarrow> g refs st = Some st'"
  shows "forGroups f registry groups st = Some st' \<Longrightarrow> forGroups g registry groups st = Some st'"
proof (induction groups arbitrary: st)
  case Nil
  then show ?case by simp
next
  case (Cons a groups)
  obtain m rs where a: "a = (m, rs)" by (cases a)
  show ?case
  proof (cases "rs = []")
    case True
    then show ?thesis using Cons a by simp
  next
    case False
    let ?l = "elemRefsAll registry m rs"
    let ?st1 = "noteLinked ?l (st\<lparr>recursedInto := recursedInto st @ rs\<rparr>)"
    obtain st2 where "f (found ?l) ?st1 = Some st2"
      and "forGroups f registry groups st2 = Some st'"
      using Cons.prems a False by (auto simp: Let_def split: option.splits)
    then have "g (found ?l) ?st1 = Some st2" and "forGroups g registry groups st2 = Some st'"
      using assms Cons.IH by blast+
    then show ?thesis using a False by (simp add: Let_def)
  qed
qed

lemma recursiveRefs_Suc:
  "recursiveRefs n key registry refs st = Some st'
     \<Longrightarrow> recursiveRefs (Suc n) key registry refs st = Some st'"
proof (induction n arbitrary: refs st st')
  case 0
  then show ?case by simp
next
  case (Suc n)
  obtain filtered st1 where fe: "filterEach key refs st = (filtered, st1)"
    by (cases "filterEach key refs st")
  have "forGroups (recursiveRefs n key registry) registry
      (groupBy expMod (textRefs filtered)) st1 = Some st'"
    using Suc.prems fe by simp
  then have "forGroups (recursiveRefs (Suc n) key registry) registry
      (groupBy expMod (textRefs filtered)) st1 = Some st'"
    using forGroups_more [of "recursiveRefs n key registry" "recursiveRefs (Suc n) key registry"]
      Suc.IH by blast
  then show ?case using fe by (simp del: recursiveRefs.simps(2) add: recursiveRefs.simps(2) [of "Suc n"])
qed

lemma recursiveRefs_more:
  "recursiveRefs n key registry refs st = Some st' \<Longrightarrow> n \<le> m
     \<Longrightarrow> recursiveRefs m key registry refs st = Some st'"
  by (induction m) (auto simp: le_Suc_eq dest: recursiveRefs_Suc simp del: recursiveRefs.simps)

lemma traverseRefs_returns:
  assumes fin: "finite (key ` reachableRefs registry srcModule)"
  shows "\<exists>n st. \<forall>m \<ge> n. traverseRefs m key registry srcModule = Some st"
proof (cases "srcRefs srcModule = []")
  case True
  then show ?thesis by (simp add: traverseRefs_def)
next
  case False
  let ?R = "reachableRefs registry srcModule"
  let ?K = "key ` ?R"
  let ?l = "elemRefsAll registry srcModule (srcRefs srcModule)"
  let ?st0 = "noteLinked ?l (startTraversal\<lparr>delivered := map Txt (srcRefs srcModule)\<rparr>)"
  have closed: "\<And>t. Txt t \<in> ?R \<Longrightarrow> set (found (elemRefs registry t (expMod t))) \<subseteq> ?R"
    using reachableRefs.child by blast
  have "\<And>t. t \<in> set (srcRefs srcModule) \<Longrightarrow> expMod t = srcModule"
    by (auto simp: srcRefs_def)
  then have "set (found ?l) \<subseteq> ?R"
    using reachableRefs.root [of _ srcModule registry] closed
    by (fastforce simp: found_elemRefsAll)
  moreover have "card (?K - seen ?st0) < Suc (card ?K)"
    using fin by (simp add: card_Diff_subset_Int less_Suc_eq_le card_mono)
  ultimately obtain st where run: "recursiveRefs (Suc (card ?K)) key registry (found ?l) ?st0 = Some st"
    using recursiveRefs_grows [where K = ?K and R = ?R and key = key, OF fin _ closed]
    by blast
  have "\<forall>m \<ge> Suc (card ?K). traverseRefs m key registry srcModule = Some st"
    using recursiveRefs_more [OF run] False by (simp add: traverseRefs_def Let_def)
  then show ?thesis by blast
qed

text \<open>The callback accepts the first occurrence of each unseen full name.\<close>

lemma filterEach_accepted:
  "fst (filterEach key refs st) = accepted key (seen st) refs"
proof (induction refs arbitrary: st)
  case Nil
  show ?case by simp
next
  case (Cons r rs)
  show ?case
    unfolding filterEach_Cons by (simp add: Cons.IH eachRef_fields insert_absorb)
qed

lemma sweep_empty: "sweep registry key seen0 [] [] seen0"
  using sweep_sweepGroups.wave [of registry key seen0 "[]" "[]" seen0]
    sweep_sweepGroups.no_group [of registry key seen0]
  by simp

lemma forGroups_sweep:
  assumes rec: "\<And>rs s s'. recurse rs s = Some s'
      \<Longrightarrow> \<exists>d. delivered s' = delivered s @ d \<and> sweep registry key (seen s) rs d (seen s')"
  shows "forGroups recurse registry groups st = Some st'
    \<Longrightarrow> \<exists>d. delivered st' = delivered st @ d \<and> sweepGroups registry key (seen st) groups d (seen st')"
proof (induction groups arbitrary: st)
  case Nil
  then have "st' = st" by simp
  then show ?case using sweep_sweepGroups.no_group [of registry key "seen st"] by simp
next
  case (Cons g groups)
  obtain m refs where g: "g = (m, refs)" by (cases g)
  show ?case
  proof (cases "refs = []")
    case True
    have "forGroups recurse registry groups st = Some st'" using Cons.prems g True by simp
    then obtain d where d: "delivered st' = delivered st @ d"
      and sw: "sweepGroups registry key (seen st) groups d (seen st')"
      using Cons.IH by blast
    have "sweep registry key (seen st) (found (elemRefsAll registry m refs)) [] (seen st)"
      using True sweep_empty [of registry key "seen st"]
      by (simp add: elemRefsAll_def noLinked_def)
    then have "sweepGroups registry key (seen st) ((m, refs) # groups) ([] @ d) (seen st')"
      using sw by (rule sweep_sweepGroups.group)
    then show ?thesis using d g by auto
  next
    case False
    let ?l = "elemRefsAll registry m refs"
    let ?st1 = "noteLinked ?l (st\<lparr>recursedInto := recursedInto st @ refs\<rparr>)"
    obtain st2 where r: "recurse (found ?l) ?st1 = Some st2"
      and rest: "forGroups recurse registry groups st2 = Some st'"
      using Cons.prems g False by (auto simp: Let_def split: option.splits)
    obtain d1 where d1: "delivered st2 = delivered ?st1 @ d1"
      and s1: "sweep registry key (seen ?st1) (found ?l) d1 (seen st2)"
      using rec [OF r] by blast
    obtain d2 where d2: "delivered st' = delivered st2 @ d2"
      and s2: "sweepGroups registry key (seen st2) groups d2 (seen st')"
      using Cons.IH [OF rest] by blast
    have "sweep registry key (seen st) (found ?l) d1 (seen st2)" using s1 by simp
    then have "sweepGroups registry key (seen st) ((m, refs) # groups) (d1 @ d2) (seen st')"
      using s2 by (rule sweep_sweepGroups.group)
    moreover have "delivered st' = delivered st @ d1 @ d2" using d1 d2 by simp
    ultimately show ?thesis using g by blast
  qed
qed

lemma recursiveRefs_sweep:
  "recursiveRefs n key registry refs st = Some st'
     \<Longrightarrow> \<exists>d. delivered st' = delivered st @ d \<and> sweep registry key (seen st) refs d (seen st')"
proof (induction n arbitrary: refs st st')
  case 0
  then show ?case by simp
next
  case (Suc n)
  define filtered where "filtered = fst (filterEach key refs st)"
  define st1 where "st1 = snd (filterEach key refs st)"
  have fe: "filterEach key refs st = (filtered, st1)" by (simp add: filtered_def st1_def)
  have acc: "filtered = accepted key (seen st) refs"
    unfolding filtered_def by (rule filterEach_accepted)
  have d1: "delivered st1 = delivered st @ refs" and s1: "seen st1 = seen st \<union> key ` set refs"
    unfolding st1_def by (simp_all add: filterEach_delivered filterEach_seen)
  have run: "forGroups (recursiveRefs n key registry) registry
      (groupBy expMod (textRefs filtered)) st1 = Some st'"
    using Suc.prems fe by simp
  obtain d where d: "delivered st' = delivered st1 @ d"
    and sw: "sweepGroups registry key (seen st1) (groupBy expMod (textRefs filtered)) d (seen st')"
    using forGroups_sweep [where recurse = "recursiveRefs n key registry" and key = key, OF _ run]
      Suc.IH by blast
  have "sweepGroups registry key (seen st \<union> key ` set refs)
      (groupBy expMod (textRefs (accepted key (seen st) refs))) d (seen st')"
    using sw unfolding s1 acc .
  then have "sweep registry key (seen st) refs (refs @ d) (seen st')"
    by (rule sweep_sweepGroups.wave)
  moreover have "delivered st' = delivered st @ refs @ d" using d d1 by simp
  ultimately show ?case by blast
qed

text \<open>A sweep has one outcome: the order it describes is the only one.\<close>

lemma sweep_deterministic:
  "sweep registry key seen0 refs d seen1
     \<Longrightarrow> sweep registry key seen0 refs d' seen1' \<longrightarrow> d' = d \<and> seen1' = seen1"
  "sweepGroups registry key seen0 groups d seen1
     \<Longrightarrow> sweepGroups registry key seen0 groups d' seen1' \<longrightarrow> d' = d \<and> seen1' = seen1"
proof (induction arbitrary: d' seen1' and d' seen1' rule: sweep_sweepGroups.inducts)
  case (wave seen0 refs deeper seen1)
  show ?case
  proof
    assume "sweep registry key seen0 refs d' seen1'"
    then obtain deeper' where "d' = refs @ deeper'"
      and "sweepGroups registry key (seen0 \<union> key ` set refs)
             (groupBy expMod (textRefs (accepted key seen0 refs))) deeper' seen1'"
      by (auto elim: sweep.cases)
    then show "d' = refs @ deeper \<and> seen1' = seen1" using wave.IH by blast
  qed
next
  case (no_group seen0)
  show ?case by (auto elim: sweepGroups.cases)
next
  case (group seen0 m rs d seen1 groups ds seen2)
  show ?case
  proof
    assume "sweepGroups registry key seen0 ((m, rs) # groups) d' seen1'"
    then obtain e s es where "d' = e @ es"
      and a: "sweep registry key seen0 (found (elemRefsAll registry m rs)) e s"
      and b: "sweepGroups registry key s groups es seen1'"
      by (auto elim: sweepGroups.cases)
    have "e = d \<and> s = seen1" using group.IH a by blast
    then show "d' = d @ ds \<and> seen1' = seen2" using group.IH b \<open>d' = e @ es\<close> by blast
  qed
qed

text \<open>Assignments and diagnostics come from expanding refs only.\<close>

lemma noteLinked_logs:
  "assignments (noteLinked l st) = assignments st @ assigned l"
  "diagnostics (noteLinked l st) = diagnostics st @ logged l"
  by (simp_all add: noteLinked_def)

lemma filterEach_logs:
  "assignments (snd (filterEach key refs st)) = assignments st"
  "diagnostics (snd (filterEach key refs st)) = diagnostics st"
proof (induction refs arbitrary: st)
  case Nil
  { case 1 show ?case by simp }
  { case 2 show ?case by simp }
next
  case (Cons r rs)
  { case 1 show ?case unfolding filterEach_Cons by (simp add: Cons.IH eachRef_def Let_def) }
  { case 2 show ?case unfolding filterEach_Cons by (simp add: Cons.IH eachRef_def Let_def) }
qed

lemma elemRefsAll_logs:
  assumes "\<forall>t \<in> set refs. expMod t = m"
  shows "assigned (elemRefsAll registry m refs) = assignedIn registry refs"
    and "logged (elemRefsAll registry m refs) = loggedIn registry refs"
  using assms
  by (induction refs)
     (simp_all add: elemRefsAll_def assignedIn_def loggedIn_def andThen_def noLinked_def)

lemma expands_refl: "expands registry st st"
  by (simp add: expands_def assignedIn_def loggedIn_def)

lemma expands_trans:
  assumes "expands registry a b" and "expands registry b c"
  shows "expands registry a c"
proof -
  obtain n1 where 1: "recursedInto b = recursedInto a @ n1"
    "assignments b = assignments a @ assignedIn registry n1"
    "diagnostics b = diagnostics a @ loggedIn registry n1"
    using assms(1) unfolding expands_def by blast
  obtain n2 where 2: "recursedInto c = recursedInto b @ n2"
    "assignments c = assignments b @ assignedIn registry n2"
    "diagnostics c = diagnostics b @ loggedIn registry n2"
    using assms(2) unfolding expands_def by blast
  show ?thesis
    unfolding expands_def
    by (rule exI [of _ "n1 @ n2"]) (simp add: 1 2 assignedIn_def loggedIn_def)
qed

lemma forGroups_expands:
  assumes rec: "\<And>rs s s'. recurse rs s = Some s' \<Longrightarrow> expands registry s s'"
  shows "\<forall>(m, rs) \<in> set groups. \<forall>t \<in> set rs. expMod t = m
    \<Longrightarrow> forGroups recurse registry groups st = Some st' \<Longrightarrow> expands registry st st'"
proof (induction groups arbitrary: st)
  case Nil
  then show ?case by (simp add: expands_refl)
next
  case (Cons g groups)
  obtain m refs where g: "g = (m, refs)" by (cases g)
  have wf: "\<forall>(m, rs) \<in> set groups. \<forall>t \<in> set rs. expMod t = m" using Cons.prems(1) by simp
  show ?case
  proof (cases "refs = []")
    case True
    then show ?thesis using Cons.IH [OF wf] Cons.prems(2) g by simp
  next
    case False
    let ?l = "elemRefsAll registry m refs"
    let ?st1 = "noteLinked ?l (st\<lparr>recursedInto := recursedInto st @ refs\<rparr>)"
    obtain st2 where r: "recurse (found ?l) ?st1 = Some st2"
      and rest: "forGroups recurse registry groups st2 = Some st'"
      using Cons.prems(2) g False by (auto simp: Let_def split: option.splits)
    have "\<forall>t \<in> set refs. expMod t = m" using Cons.prems(1) g by simp
    then have "assigned ?l = assignedIn registry refs" "logged ?l = loggedIn registry refs"
      by (rule elemRefsAll_logs)+
    then have "expands registry st ?st1"
      unfolding expands_def by (intro exI [of _ refs]) (simp add: noteLinked_logs)
    then have "expands registry st st2" using rec [OF r] expands_trans by blast
    then show ?thesis using Cons.IH [OF wf rest] expands_trans by blast
  qed
qed

lemma recursiveRefs_expands:
  "recursiveRefs n key registry refs st = Some st' \<Longrightarrow> expands registry st st'"
proof (induction n arbitrary: refs st st')
  case 0
  then show ?case by simp
next
  case (Suc n)
  define filtered where "filtered = fst (filterEach key refs st)"
  define st1 where "st1 = snd (filterEach key refs st)"
  have fe: "filterEach key refs st = (filtered, st1)" by (simp add: filtered_def st1_def)
  have "expands registry st st1"
    unfolding expands_def st1_def
    by (intro exI [of _ "[]"])
       (simp add: filterEach_logs filterEach_recursedInto assignedIn_def loggedIn_def)
  moreover have "expands registry st1 st'"
  proof (rule forGroups_expands [where recurse = "recursiveRefs n key registry"])
    show "\<And>rs s s'. recursiveRefs n key registry rs s = Some s' \<Longrightarrow> expands registry s s'"
      using Suc.IH by blast
    show "\<forall>(m, rs) \<in> set (groupBy expMod (textRefs filtered)). \<forall>t \<in> set rs. expMod t = m"
      using groupBy_keys by fastforce
    show "forGroups (recursiveRefs n key registry) registry
        (groupBy expMod (textRefs filtered)) st1 = Some st'"
      using Suc.prems fe by simp
  qed
  ultimately show ?case by (rule expands_trans)
qed

lemma traverseRefs_expands:
  assumes "traverseRefs n key registry srcModule = Some st"
  shows "assignments st = assignedIn registry (srcRefs srcModule @ recursedInto st)
       \<and> diagnostics st = loggedIn registry (srcRefs srcModule @ recursedInto st)"
proof (cases "srcRefs srcModule = []")
  case True
  then have "st = startTraversal\<lparr>delivered := []\<rparr>"
    using assms by (simp add: traverseRefs_def)
  then show ?thesis using True by (simp add: startTraversal_def assignedIn_def loggedIn_def)
next
  case False
  let ?l = "elemRefsAll registry srcModule (srcRefs srcModule)"
  let ?st0 = "noteLinked ?l (startTraversal\<lparr>delivered := map Txt (srcRefs srcModule)\<rparr>)"
  have "\<forall>t \<in> set (srcRefs srcModule). expMod t = srcModule" by (auto simp: srcRefs_def)
  then have l: "assigned ?l = assignedIn registry (srcRefs srcModule)"
    "logged ?l = loggedIn registry (srcRefs srcModule)"
    by (rule elemRefsAll_logs)+
  have "recursiveRefs n key registry (found ?l) ?st0 = Some st"
    using assms False by (simp add: traverseRefs_def Let_def)
  then have "expands registry ?st0 st" by (rule recursiveRefs_expands)
  then obtain new where "recursedInto st = recursedInto ?st0 @ new"
    "assignments st = assignments ?st0 @ assignedIn registry new"
    "diagnostics st = diagnostics ?st0 @ loggedIn registry new"
    unfolding expands_def by blast
  then show ?thesis
    by (simp add: noteLinked_logs l startTraversal_def assignedIn_def loggedIn_def)
qed

text \<open>The lookups of a list of children.\<close>

lemma elemChildrenRefs_fields:
  "found (elemChildrenRefs registry srcRef cs m)
     = concat (map (\<lambda>c. found (linkedRef registry c srcRef m)) cs)"
  "assigned (elemChildrenRefs registry srcRef cs m)
     = concat (map (\<lambda>c. assigned (linkedRef registry c srcRef m)) cs)"
  "logged (elemChildrenRefs registry srcRef cs m)
     = concat (map (\<lambda>c. logged (linkedRef registry c srcRef m)) cs)"
  by (induction cs) (simp_all add: elemChildrenRefs_def andThen_def noLinked_def)

section \<open>Name lookup for a reference\<close>

lemma find_name_None:
  "find (\<lambda>(a, b). a = n) xs = None \<longleftrightarrow> n \<notin> fst ` set xs"
  by (induction xs) auto

lemma importArgRef_iff:
  "importArgRef srcRef n = Some True \<longleftrightarrow> isImportArg srcRef n"
proof (cases "expInfo srcRef")
  case None
  then show ?thesis by (simp add: importArgRef_def isImportArg_def)
next
  case (Some info)
  have "(find (\<lambda>(a, b). a = n) (expImpArgs info) \<noteq> None) \<longleftrightarrow> n \<in> fst ` set (expImpArgs info)"
    by (simp add: find_name_None del: not_None_eq)
  then show ?thesis using Some by (simp add: importArgRef_def isImportArg_def del: not_None_eq)
qed

lemma importRef_eq:
  "importRef registry srcRef n m (treeImports m) = map_option (importedRef srcRef m) (registry m n)"
  by (simp add: importRef_def importedRef_def Let_def split: option.splits ModuleExport.splits)

lemma find_orElse_append:
  "orElse (find P xs) (find P ys) = find P (xs @ ys)"
  by (induction xs) (simp_all add: orElse_def)

lemma localRef_eq:
  "localRef n m = map_option (\<lambda>d. Txt (TextRef m d (Some (elemName d)) None))
     (find (\<lambda>d. elemName d = n) (fns m @ structs m @ aliases m))"
  by (simp add: localRef_def find_orElse_append split: option.splits)

lemma linkedRef_lookupChild:
  assumes "childKind child = ''call'' \<or> childKind child = ''typeRef''"
  shows "linkedRef registry child srcRef m = lookupChild registry srcRef m child"
  using assms
  by (auto simp: linkedRef_def lookupChild_def Let_def importArgRef_iff importRef_eq localRef_eq
      orElse_def split: option.splits)

lemma lookedUp_eq:
  "lookedUp e = (if elemKind e = ''fn''
      then filter (\<lambda>c. \<not> stdFn (childName c) \<and> childName c \<noteq> elemName e) (calls e) else [])
     @ fst (elemTypeRefs e)"
  unfolding lookedUp_def elemTypeRefs_def Let_def
  by (cases "elemKind e = ''fn''"; cases "elemKind e = ''var''"; cases "elemKind e = ''alias''";
      cases "elemKind e = ''member''"; cases "elemKind e = ''struct''") simp_all

lemma elemRefs_fields:
  "found (elemRefs registry srcRef m)
     = found (elemChildrenRefs registry srcRef (lookedUp (elem srcRef)) m)"
  "assigned (elemRefs registry srcRef m)
     = assigned (elemChildrenRefs registry srcRef (lookedUp (elem srcRef)) m)"
  "logged (elemRefs registry srcRef m)
     = logged (elemChildrenRefs registry srcRef (lookedUp (elem srcRef)) m)"
proof -
  obtain trs errs where t: "elemTypeRefs (elem srcRef) = (trs, errs)"
    by (cases "elemTypeRefs (elem srcRef)")
  define userCalls where "userCalls = (if elemKind (elem srcRef) = ''fn''
      then filter (\<lambda>c. \<not> stdFn (childName c) \<and> childName c \<noteq> elemName (elem srcRef))
             (calls (elem srcRef))
      else [])"
  have lu: "lookedUp (elem srcRef) = userCalls @ trs"
    using lookedUp_eq [of "elem srcRef"] t by (simp add: userCalls_def)
  have er: "elemRefs registry srcRef m
      = andThen (elemChildrenRefs registry srcRef userCalls m)
          (andThen (noLinked\<lparr>consoleErrors := errs\<rparr>) (elemChildrenRefs registry srcRef trs m))"
    by (simp add: elemRefs_def Let_def t userCalls_def elemChildrenRefs_def)
  show "found (elemRefs registry srcRef m)
     = found (elemChildrenRefs registry srcRef (lookedUp (elem srcRef)) m)"
    unfolding lu er by (simp add: andThen_def noLinked_def elemChildrenRefs_fields)
  show "assigned (elemRefs registry srcRef m)
     = assigned (elemChildrenRefs registry srcRef (lookedUp (elem srcRef)) m)"
    unfolding lu er by (simp add: andThen_def noLinked_def elemChildrenRefs_fields)
  show "logged (elemRefs registry srcRef m)
     = logged (elemChildrenRefs registry srcRef (lookedUp (elem srcRef)) m)"
    unfolding lu er by (simp add: andThen_def noLinked_def elemChildrenRefs_fields)
qed

text \<open>
  C1, as amended. \<open>elemRefs\<close>, which the traversal calls on every ref it expands, looks up
  the children in \<open>lookedUp\<close> and no others: the calls of a \<open>fn\<close> that name neither a
  builtin function or type nor the \<open>fn\<close> itself, then the type references that name no
  builtin type. The refs it returns, the assignments it makes to the children's \<open>ref\<close>
  fields and the diagnostics it logs are those of the lookups of these children, in
  order, where each lookup follows the four steps of \<open>lookupChild\<close>: an export parameter
  recorded on the ref's import gives nothing; otherwise the module's import resolution
  gives the imported ref; otherwise the first declaration of that name in the module's
  \<open>fns\<close>, \<open>structs\<close>, \<open>aliases\<close> gives a local ref; otherwise "reference not found" is
  logged at the child's start and nothing is assigned. A traversal of a finite module
  graph returns, and its assignments and diagnostics are exactly those of \<open>elemRefs\<close> on
  the root declarations and on the refs it recursed into, in that order.
\<close>

theorem elemRefs_lookup_order:
  "((\<forall>c \<in> set (lookedUp (elem srcRef)). childKind c = ''call'' \<or> childKind c = ''typeRef'') \<longrightarrow>
      found (elemRefs registry srcRef m)
        = concat (map (\<lambda>c. found (lookupChild registry srcRef m c)) (lookedUp (elem srcRef)))
      \<and> assigned (elemRefs registry srcRef m)
        = concat (map (\<lambda>c. assigned (lookupChild registry srcRef m c)) (lookedUp (elem srcRef)))
      \<and> logged (elemRefs registry srcRef m)
        = concat (map (\<lambda>c. logged (lookupChild registry srcRef m c)) (lookedUp (elem srcRef))))
   \<and> (finite (key ` reachableRefs registry srcModule) \<longrightarrow>
        (\<exists>n st. (\<forall>k \<ge> n. traverseRefs k key registry srcModule = Some st)
           \<and> assignments st = assignedIn registry (srcRefs srcModule @ recursedInto st)
           \<and> diagnostics st = loggedIn registry (srcRefs srcModule @ recursedInto st)))"
proof (intro conjI impI)
  assume kinds: "\<forall>c \<in> set (lookedUp (elem srcRef)). childKind c = ''call'' \<or> childKind c = ''typeRef''"
  define cs where "cs = lookedUp (elem srcRef)"
  have same: "\<And>c. c \<in> set cs \<Longrightarrow> linkedRef registry c srcRef m = lookupChild registry srcRef m c"
    using kinds linkedRef_lookupChild unfolding cs_def by blast
  have l: "found (elemRefs registry srcRef m) = concat (map (\<lambda>c. found (linkedRef registry c srcRef m)) cs)"
    "assigned (elemRefs registry srcRef m) = concat (map (\<lambda>c. assigned (linkedRef registry c srcRef m)) cs)"
    "logged (elemRefs registry srcRef m) = concat (map (\<lambda>c. logged (linkedRef registry c srcRef m)) cs)"
    unfolding cs_def elemRefs_fields by (simp_all only: elemChildrenRefs_fields)
  have r: "map (\<lambda>c. found (linkedRef registry c srcRef m)) cs
      = map (\<lambda>c. found (lookupChild registry srcRef m c)) cs"
    "map (\<lambda>c. assigned (linkedRef registry c srcRef m)) cs
      = map (\<lambda>c. assigned (lookupChild registry srcRef m c)) cs"
    "map (\<lambda>c. logged (linkedRef registry c srcRef m)) cs
      = map (\<lambda>c. logged (lookupChild registry srcRef m c)) cs"
    using same by simp_all
  show "found (elemRefs registry srcRef m)
        = concat (map (\<lambda>c. found (lookupChild registry srcRef m c)) (lookedUp (elem srcRef)))"
    using l(1) r(1) unfolding cs_def by simp
  show "assigned (elemRefs registry srcRef m)
        = concat (map (\<lambda>c. assigned (lookupChild registry srcRef m c)) (lookedUp (elem srcRef)))"
    using l(2) r(2) unfolding cs_def by simp
  show "logged (elemRefs registry srcRef m)
        = concat (map (\<lambda>c. logged (lookupChild registry srcRef m c)) (lookedUp (elem srcRef)))"
    using l(3) r(3) unfolding cs_def by simp
next
  assume "finite (key ` reachableRefs registry srcModule)"
  then obtain n st where ret: "\<forall>k \<ge> n. traverseRefs k key registry srcModule = Some st"
    using traverseRefs_returns by blast
  then have "traverseRefs n key registry srcModule = Some st" by simp
  then have "assignments st = assignedIn registry (srcRefs srcModule @ recursedInto st)
       \<and> diagnostics st = loggedIn registry (srcRefs srcModule @ recursedInto st)"
    by (rule traverseRefs_expands)
  then show "\<exists>n st. (\<forall>k \<ge> n. traverseRefs k key registry srcModule = Some st)
           \<and> assignments st = assignedIn registry (srcRefs srcModule @ recursedInto st)
           \<and> diagnostics st = loggedIn registry (srcRefs srcModule @ recursedInto st)"
    using ret by blast
qed

theorem elemRefs_lookup_order_witness:
  "list_all (\<lambda>c. childKind c = ''call'' \<or> childKind c = ''typeRef'') (lookedUp (elem lookupRef))
   \<and> map childName (lookedUp (elem lookupRef)) = [''a1'', ''g'', ''nowhere'', ''T'']
   \<and> found (elemRefs lookupRegistry lookupRef lookupMod)
       = concat (map (\<lambda>c. found (lookupChild lookupRegistry lookupRef lookupMod c))
           (lookedUp (elem lookupRef)))
   \<and> found (elemRefs lookupRegistry lookupRef lookupMod)
       = [Txt (TextRef modA (fnElem ''a1'' []) (Some ''a1'') (Some (ExportInfo lookupRef None []))),
          Txt (TextRef lookupMod (fnElem ''g'' []) (Some ''g'') None)]
   \<and> map (childName \<circ> fst) (assigned (elemRefs lookupRegistry lookupRef lookupMod)) = [''a1'', ''g'']
   \<and> logged (elemRefs lookupRegistry lookupRef lookupMod)
       = [\<lparr>logPos = 5, logMsg = ''reference not found: nowhere  module: L ''\<rparr>]
   \<and> finite (fullNameOf ` reachableRefs noImports mainAB)
   \<and> (\<exists>n st. (\<forall>k \<ge> n. traverseRefs k fullNameOf noImports mainAB = Some st)
           \<and> assignments st = assignedIn noImports (srcRefs mainAB @ recursedInto st)
           \<and> diagnostics st = loggedIn noImports (srcRefs mainAB @ recursedInto st))
   \<and> map_option (map logMsg \<circ> diagnostics) (traverseRefs 2 fullNameOf noImports mainAB)
       = Some [''reference not found: a1  module: main '',
               ''reference not found: b1  module: main '',
               ''reference not found: a2  module: main '']"
proof -
  have k: "\<forall>c \<in> set (lookedUp (elem lookupRef)). childKind c = ''call'' \<or> childKind c = ''typeRef''"
    by code_simp
  have step: "\<forall>t \<in> set (srcRefs mainAB).
      set (found (elemRefs noImports t (expMod t))) \<subseteq> Txt ` set (srcRefs mainAB)"
    by code_simp
  have "x \<in> Txt ` set (srcRefs mainAB)" if "x \<in> reachableRefs noImports mainAB" for x
    using that
  proof (induction rule: reachableRefs.induct)
    case (root t)
    then show ?case by blast
  next
    case (child t c)
    then show ?case using step by blast
  qed
  then have "reachableRefs noImports mainAB \<subseteq> Txt ` set (srcRefs mainAB)" by blast
  then have "finite (reachableRefs noImports mainAB)"
    by (rule finite_subset) simp
  then have fin: "finite (fullNameOf ` reachableRefs noImports mainAB)" by simp
  note t = elemRefs_lookup_order [where srcRef = lookupRef and registry = lookupRegistry
      and m = lookupMod and key = fullNameOf and srcModule = mainAB]
  note u = elemRefs_lookup_order [where srcRef = lookupRef and registry = noImports
      and m = lookupMod and key = fullNameOf and srcModule = mainAB]
  have 1: "list_all (\<lambda>c. childKind c = ''call'' \<or> childKind c = ''typeRef'') (lookedUp (elem lookupRef))"
    using k unfolding list_all_iff .
  have 2: "map childName (lookedUp (elem lookupRef)) = [''a1'', ''g'', ''nowhere'', ''T'']"
    by code_simp
  have 3: "found (elemRefs lookupRegistry lookupRef lookupMod)
       = concat (map (\<lambda>c. found (lookupChild lookupRegistry lookupRef lookupMod c))
           (lookedUp (elem lookupRef)))"
    using t k by blast
  have 4: "found (elemRefs lookupRegistry lookupRef lookupMod)
       = [Txt (TextRef modA (fnElem ''a1'' []) (Some ''a1'') (Some (ExportInfo lookupRef None []))),
          Txt (TextRef lookupMod (fnElem ''g'' []) (Some ''g'') None)]"
    by code_simp
  have 5: "map (childName \<circ> fst) (assigned (elemRefs lookupRegistry lookupRef lookupMod)) = [''a1'', ''g'']"
    by code_simp
  have 6: "logged (elemRefs lookupRegistry lookupRef lookupMod)
       = [\<lparr>logPos = 5, logMsg = ''reference not found: nowhere  module: L ''\<rparr>]"
    by code_simp
  have 7: "\<exists>n st. (\<forall>k \<ge> n. traverseRefs k fullNameOf noImports mainAB = Some st)
           \<and> assignments st = assignedIn noImports (srcRefs mainAB @ recursedInto st)
           \<and> diagnostics st = loggedIn noImports (srcRefs mainAB @ recursedInto st)"
    using u fin by blast
  have 8: "map_option (map logMsg \<circ> diagnostics) (traverseRefs 2 fullNameOf noImports mainAB)
       = Some [''reference not found: a1  module: main '',
               ''reference not found: b1  module: main '',
               ''reference not found: a2  module: main '']"
    by code_simp
  show ?thesis using 1 2 3 4 5 6 fin 7 8 by blast
qed

text \<open>
  C1 as stated fails for a call that names a builtin function or the calling function
  itself: \<open>fn f\<close> calls \<open>f\<close> and \<open>min\<close>. Neither name is an export parameter or resolves
  through an import; \<open>f\<close> is declared in the module and \<open>min\<close> is not. The traversal
  assigns no ref and logs no diagnostic.
\<close>

theorem elemRefs_skips_counterexample:
  "map childName (calls (elem (hd (srcRefs selfMod)))) = [''f'', ''min'']
   \<and> map elemName (fns selfMod @ structs selfMod @ aliases selfMod) = [''f'']
   \<and> expInfo (hd (srcRefs selfMod)) = None
   \<and> elemRefs noImports (hd (srcRefs selfMod)) selfMod = noLinked
   \<and> map_option (\<lambda>st. (map fullNameOf (delivered st), assignments st, diagnostics st))
        (traverseRefs 2 fullNameOf noImports selfMod)
       = Some ([''main.f''], [], [])"
  by code_simp

section \<open>Delivery order\<close>

text \<open>
  C6, as amended. When the refs reachable from the root module have finitely many full
  names, \<open>traverseRefs\<close> returns, and it delivers the declarations of the root module
  followed by a sweep over all the references found inside them. A sweep delivers the
  refs of its list in the order of the list, not grouped by exporting module; then the
  accepted text refs of the list are grouped by exporting module and, group after group,
  all the references found inside the refs of one group are swept, each such sweep with
  everything below it finished before the next group is started.
\<close>

theorem delivery_order:
  assumes "finite (key ` reachableRefs registry srcModule)"
  shows "\<exists>n st deeper.
      (\<forall>m \<ge> n. traverseRefs m key registry srcModule = Some st)
      \<and> delivered st = map Txt (srcRefs srcModule) @ deeper
      \<and> sweep registry key {} (found (elemRefsAll registry srcModule (srcRefs srcModule)))
            deeper (seen st)"
proof -
  obtain n st where ret: "\<forall>m \<ge> n. traverseRefs m key registry srcModule = Some st"
    using traverseRefs_returns [OF assms] by blast
  then have run: "traverseRefs n key registry srcModule = Some st" by simp
  let ?l = "elemRefsAll registry srcModule (srcRefs srcModule)"
  have "\<exists>deeper. delivered st = map Txt (srcRefs srcModule) @ deeper
      \<and> sweep registry key {} (found ?l) deeper (seen st)"
  proof (cases "srcRefs srcModule = []")
    case True
    then have "st = startTraversal\<lparr>delivered := []\<rparr>"
      using run by (simp add: traverseRefs_def)
    then have "delivered st = map Txt (srcRefs srcModule) @ []" and "seen st = {}"
      using True by (simp_all add: startTraversal_def)
    moreover have "sweep registry key {} (found ?l) [] {}"
      using True sweep_empty [of registry key "{}"] by (simp add: elemRefsAll_def noLinked_def)
    ultimately show ?thesis by metis
  next
    case False
    let ?st0 = "noteLinked ?l (startTraversal\<lparr>delivered := map Txt (srcRefs srcModule)\<rparr>)"
    have "recursiveRefs n key registry (found ?l) ?st0 = Some st"
      using run False by (simp add: traverseRefs_def Let_def)
    then obtain d where "delivered st = delivered ?st0 @ d"
      and "sweep registry key (seen ?st0) (found ?l) d (seen st)"
      using recursiveRefs_sweep by blast
    then show ?thesis by (auto simp: startTraversal_def)
  qed
  then show ?thesis using ret by blast
qed

theorem delivery_order_witness:
  "finite (fullNameOf ` reachableRefs deepRegistry mainAB)
   \<and> (\<exists>n st deeper.
        (\<forall>m \<ge> n. traverseRefs m fullNameOf deepRegistry mainAB = Some st)
        \<and> delivered st = map Txt (srcRefs mainAB) @ deeper
        \<and> sweep deepRegistry fullNameOf {}
             (found (elemRefsAll deepRegistry mainAB (srcRefs mainAB))) deeper (seen st))
   \<and> map_option (map fullNameOf \<circ> delivered) (traverseRefs 4 fullNameOf deepRegistry mainAB)
       = Some [''main.main'', ''A.a1'', ''B.b1'', ''A.a2'', ''A.a3'', ''A.a4'', ''B.b2'']"
proof -
  let ?L0 = "map Txt (srcRefs mainAB)"
  let ?L1 = "found (elemRefsAll deepRegistry mainAB (srcRefs mainAB))"
  let ?L2 = "concat (map (\<lambda>t. found (elemRefs deepRegistry t (expMod t))) (textRefs ?L1))"
  let ?L = "?L0 @ ?L1 @ ?L2"
  have roots: "list_all (\<lambda>t. Txt t \<in> set ?L) (srcRefs mainAB)" by code_simp
  have step: "list_all (\<lambda>t. list_all (\<lambda>c. c \<in> set ?L) (found (elemRefs deepRegistry t (expMod t))))
      (textRefs ?L)"
    by code_simp
  have "c \<in> set ?L" if "c \<in> reachableRefs deepRegistry mainAB" for c
    using that
  proof (induction rule: reachableRefs.induct)
    case (root t)
    then show ?case using roots unfolding list_all_iff by blast
  next
    case (child t c)
    have "t \<in> set (textRefs ?L)" using child.IH by (simp only: set_textRefs)
    then show ?case using step child.hyps(2) unfolding list_all_iff by blast
  qed
  then have "reachableRefs deepRegistry mainAB \<subseteq> set ?L" by blast
  then have "finite (reachableRefs deepRegistry mainAB)"
    by (rule finite_subset) simp
  then have fin: "finite (fullNameOf ` reachableRefs deepRegistry mainAB)" by simp
  have d: "map_option (map fullNameOf \<circ> delivered) (traverseRefs 4 fullNameOf deepRegistry mainAB)
       = Some [''main.main'', ''A.a1'', ''B.b1'', ''A.a2'', ''A.a3'', ''A.a4'', ''B.b2'']"
    by code_simp
  show ?thesis using fin delivery_order [OF fin] d by blast
qed

text \<open>
  C6 as stated fails: \<open>main\<close> calls \<open>a1\<close>, \<open>b1\<close>, \<open>a2\<close>, exported by modules A, B, A. The
  refs are delivered in that order, so the two refs into module A are not contiguous.
\<close>

theorem delivery_order_counterexample:
  "map_option (map fullNameOf \<circ> delivered) (traverseRefs 3 fullNameOf registryAB mainAB)
     = Some [''main.main'', ''A.a1'', ''B.b1'', ''A.a2'']
   \<and> map_option (map (modName \<circ> expMod) \<circ> textRefs \<circ> delivered)
        (traverseRefs 3 fullNameOf registryAB mainAB)
     = Some [''main'', ''A'', ''B'', ''A'']"
  by code_simp

section \<open>Termination\<close>

text \<open>
  C2, as amended. When the refs reachable from the root module have finitely many full
  names, \<open>traverseRefs\<close> halts: from some recursion depth on, every bound gives the same
  final state. The refs whose children \<open>recursiveRefs\<close> looked up have pairwise distinct
  full names.
\<close>

theorem traverseRefs_halts:
  assumes "finite (refFullName ` reachableRefs registry srcModule)"
  shows "\<exists>n st. (\<forall>m \<ge> n. traverseRefs m refFullName registry srcModule = Some st)
           \<and> distinct (map (\<lambda>t. refFullName (Txt t)) (recursedInto st))"
proof (cases "srcRefs srcModule = []")
  case True
  then show ?thesis
    by (intro exI [of _ 0] exI [of _ "startTraversal\<lparr>delivered := map Txt (srcRefs srcModule)\<rparr>"])
       (simp add: traverseRefs_def startTraversal_def)
next
  case False
  let ?R = "reachableRefs registry srcModule"
  let ?K = "refFullName ` ?R"
  let ?l = "elemRefsAll registry srcModule (srcRefs srcModule)"
  let ?st0 = "noteLinked ?l (startTraversal\<lparr>delivered := map Txt (srcRefs srcModule)\<rparr>)"
  have closed: "\<And>t. Txt t \<in> ?R \<Longrightarrow> set (found (elemRefs registry t (expMod t))) \<subseteq> ?R"
    using reachableRefs.child by blast
  have "\<And>t. t \<in> set (srcRefs srcModule) \<Longrightarrow> expMod t = srcModule"
    by (auto simp: srcRefs_def)
  then have "set (found ?l) \<subseteq> ?R"
    using reachableRefs.root [of _ srcModule registry] closed
    by (fastforce simp: found_elemRefsAll)
  moreover have "card (?K - seen ?st0) < Suc (card ?K)"
    using assms by (simp add: card_Diff_subset_Int less_Suc_eq_le card_mono)
  ultimately obtain st where run: "recursiveRefs (Suc (card ?K)) refFullName registry (found ?l) ?st0
        = Some st"
    and g: "grows (\<lambda>t. refFullName (Txt t)) (seen ?st0) ?st0 st"
    using recursiveRefs_grows [where K = ?K and R = ?R and key = refFullName, OF assms _ closed]
    by blast
  have "\<forall>m \<ge> Suc (card ?K). traverseRefs m refFullName registry srcModule = Some st"
    using recursiveRefs_more [OF run] False by (simp add: traverseRefs_def Let_def)
  moreover have "distinct (map (\<lambda>t. refFullName (Txt t)) (recursedInto st))"
    using g by (auto simp: grows_def startTraversal_def)
  ultimately show ?thesis by blast
qed

theorem traverseRefs_halts_witness:
  "finite (fullNameOf ` reachableRefs noImports mutualMod)
   \<and> (\<exists>n st. (\<forall>m \<ge> n. traverseRefs m fullNameOf noImports mutualMod = Some st)
          \<and> distinct (map (\<lambda>t. fullNameOf (Txt t)) (recursedInto st)))
   \<and> map_option (map fullNameOf \<circ> delivered) (traverseRefs 3 fullNameOf noImports mutualMod)
       = Some [''main.f'', ''main.g'', ''main.g'', ''main.f'', ''main.f'', ''main.g'']
   \<and> map_option (map (\<lambda>t. fullNameOf (Txt t)) \<circ> recursedInto)
         (traverseRefs 3 fullNameOf noImports mutualMod)
       = Some [''main.g'', ''main.f'']"
proof -
  have step: "\<forall>t \<in> set (srcRefs mutualMod).
      set (found (elemRefs noImports t (expMod t))) \<subseteq> Txt ` set (srcRefs mutualMod)"
    by code_simp
  have "c \<in> Txt ` set (srcRefs mutualMod)" if "c \<in> reachableRefs noImports mutualMod" for c
    using that
  proof (induction rule: reachableRefs.induct)
    case (root t)
    then show ?case by blast
  next
    case (child t c)
    then show ?case using step by blast
  qed
  then have "reachableRefs noImports mutualMod \<subseteq> Txt ` set (srcRefs mutualMod)" by blast
  then have "finite (reachableRefs noImports mutualMod)"
    by (rule finite_subset) simp
  then have fin: "finite (fullNameOf ` reachableRefs noImports mutualMod)" by simp
  have d: "map_option (map fullNameOf \<circ> delivered) (traverseRefs 3 fullNameOf noImports mutualMod)
       = Some [''main.f'', ''main.g'', ''main.g'', ''main.f'', ''main.f'', ''main.g'']"
    by code_simp
  have r: "map_option (map (\<lambda>t. fullNameOf (Txt t)) \<circ> recursedInto)
         (traverseRefs 3 fullNameOf noImports mutualMod)
       = Some [''main.g'', ''main.f'']"
    by code_simp
  show ?thesis using fin traverseRefs_halts [OF fin] d r by blast
qed

text \<open>
  C2 as stated fails: the callback is called for every ref found. \<open>helper\<close> is delivered
  as a root declaration and again as the target of the call in \<open>main\<close>.
\<close>

theorem traverseRefs_visits_twice_counterexample:
  "map_option (map fullNameOf \<circ> delivered) (traverseRefs 3 fullNameOf noImports mainLocal)
     = Some [''main.main'', ''main.helper'', ''main.helper'']"
  by code_simp

section \<open>Which operations return\<close>






end
